theory Spec2Isabelle
  imports Main "HOL-Library.Sublist" "HOL-Library.Char_ord" "HOL-Library.List_Lexorder"
begin

unbundle bit_operations_syntax

section \<open>GTOS 1.0: the console emulator of GTOS\_1.0.py\<close>

text \<open>
  The development embeds the parts of \<^verbatim>\<open>GTOS_1.0.py\<close> that carry behaviour worth
  stating: the path arithmetic of \<^verbatim>\<open>FileSystem\<close>, the dispatcher
  \<^verbatim>\<open>Console.execute_command\<close> with its alias expansion, the handlers that change the
  console (\<^verbatim>\<open>cd\<close>, \<^verbatim>\<open>alias\<close>, \<^verbatim>\<open>unalias\<close>, \<^verbatim>\<open>export\<close>, and \<^verbatim>\<open>expr\<close>,
  \<^verbatim>\<open>bc\<close>, \<^verbatim>\<open>awk\<close>, which evaluate user text), the text commands \<^verbatim>\<open>uniq\<close>,
  \<^verbatim>\<open>comm\<close>, \<^verbatim>\<open>tsort\<close>, \<^verbatim>\<open>cksum\<close>, and the key sets of the three command tables.

  Conventions. A Python \<^verbatim>\<open>str\<close> is a \<^typ>\<open>string\<close>; the model covers the code points
  below 256. The message texts of the source are Chinese literals; each of them is a
  constructor of the type of printed lines below. What the interpreter and the operating
  system decide is a field of the record \<open>host\<close>: the flavour of \<^verbatim>\<open>os.path\<close>, the file
  system, the frames that the recursion limit leaves, the order of iteration of a set and
  the value of \<^verbatim>\<open>eval\<close>. A function that calls itself takes the number of frames that are
  left for the calls it makes, and a call for which no frame is left raises
  \<^verbatim>\<open>RecursionError\<close>.
\<close>

subsection \<open>Strings\<close>

text \<open>\<^verbatim>\<open>str.isspace\<close> on one code point below 256.\<close>

definition is_space :: "char \<Rightarrow> bool" where
  "is_space c =
     (let n = (of_char c :: nat)
      in (9 \<le> n \<and> n \<le> 13) \<or> (28 \<le> n \<and> n \<le> 32) \<or> n = 133 \<or> n = 160)"

text \<open>\<^verbatim>\<open>str.split()\<close> without argument: the maximal runs of non-whitespace. The first
  argument of \<open>split_acc\<close> is the token being read.\<close>

fun split_acc :: "string \<Rightarrow> string \<Rightarrow> string list" where
  "split_acc w [] = (if w = [] then [] else [w])"
| "split_acc w (c # cs) =
     (if is_space c then (if w = [] then split_acc [] cs else w # split_acc [] cs)
      else split_acc (w @ [c]) cs)"

definition split :: "string \<Rightarrow> string list" where
  "split s = split_acc [] s"

text \<open>\<^verbatim>\<open>str.strip()\<close> without argument, and \<^verbatim>\<open>str.lstrip('/')\<close>.\<close>

definition strip :: "string \<Rightarrow> string" where
  "strip s = rev (dropWhile is_space (rev (dropWhile is_space s)))"

definition lstrip_slash :: "string \<Rightarrow> string" where
  "lstrip_slash s = dropWhile (\<lambda>c. c = CHR ''/'') s"

text \<open>\<^verbatim>\<open>str.lower\<close> on one code point below 256: the ASCII capitals and the Latin-1
  capitals other than the multiplication sign move up by 32, which sets bit 5 of the code
  point, clear in every one of them.\<close>

definition is_upper :: "char \<Rightarrow> bool" where
  "is_upper c =
     (let n = (of_char c :: nat)
      in (65 \<le> n \<and> n \<le> 90) \<or> (192 \<le> n \<and> n \<le> 222 \<and> n \<noteq> 215))"

definition lower_char :: "char \<Rightarrow> char" where
  "lower_char c =
     (if is_upper c
      then (case c of Char b0 b1 b2 b3 b4 b5 b6 b7 \<Rightarrow> Char b0 b1 b2 b3 b4 True b6 b7)
      else c)"

definition lower :: "string \<Rightarrow> string" where
  "lower s = map lower_char s"

text \<open>\<^verbatim>\<open>' '.join(args)\<close>.\<close>

fun join_sp :: "string list \<Rightarrow> string" where
  "join_sp [] = []"
| "join_sp [a] = a"
| "join_sp (a # b # bs) = a @ '' '' @ join_sp (b # bs)"

subsection \<open>Paths\<close>

text \<open>\<^verbatim>\<open>posixpath.join(a, b)\<close>, which \<^verbatim>\<open>os.path.join\<close> is on a POSIX system: an absolute
  second component replaces the first, otherwise the two are concatenated with one
  separator between them unless the first is empty or already ends with one. On Windows
  \<^verbatim>\<open>os.path.join\<close> is \<^verbatim>\<open>ntpath.join\<close>; the host below says which function it is.\<close>

definition posixpath_join :: "string \<Rightarrow> string \<Rightarrow> string" where
  "posixpath_join a b =
     (if b \<noteq> [] \<and> hd b = CHR ''/'' then b
      else if a = [] \<or> last a = CHR ''/'' then a @ b
      else a @ ''/'' @ b)"

text \<open>What a POSIX path denotes. \<open>split_on d s\<close> is \<^verbatim>\<open>s.split(d)\<close>; the segments of a
  path are its components other than the empty one and \<^verbatim>\<open>.\<close>; walking the segments
  from the top of the tree, \<^verbatim>\<open>..\<close> leaves the directory reached so far (and stays at the
  top there). A path lies under the root when the directory the root denotes is on the way
  to what the path denotes.\<close>

fun split_on :: "char \<Rightarrow> string \<Rightarrow> string list" where
  "split_on d [] = [[]]"
| "split_on d (c # cs) =
     (if c = d then [] # split_on d cs
      else (c # hd (split_on d cs)) # tl (split_on d cs))"

definition segments :: "string \<Rightarrow> string list" where
  "segments p = filter (\<lambda>s. s \<noteq> [] \<and> s \<noteq> ''.'') (split_on CHR ''/'' p)"





subsection \<open>The console and what surrounds it\<close>

text \<open>Exceptions that reach the dispatcher. \<open>OSError\<close> carries its message.\<close>

datatype exn =
    NameError string
  | ValueError
  | IndexError
  | OSError string
  | UnicodeDecodeError
  | RecursionError
  | OtherError string

text \<open>The lines the console prints. \<open>Text\<close> is output computed by a command; each other
  constructor is one message literal of the source with the values it interpolates:
  \<open>Command_not_found cmd\<close> is the line of \<^verbatim>\<open>execute_command\<close> for an unknown
  command, \<open>Execution_error command e\<close> the line of its \<^verbatim>\<open>except Exception\<close>,
  \<open>Run_error e\<close> and \<open>Unknown_error e\<close> the lines of the inner and the outer
  \<^verbatim>\<open>except Exception\<close> of \<^verbatim>\<open>run\<close>, \<open>Directory_not_found\<close> the line of \<^verbatim>\<open>cd\<close> when
  \<^verbatim>\<open>change_dir\<close> is false, \<open>Usage name\<close> the usage line of the command \<open>name\<close>,
  \<open>Cannot_read name e\<close> the line of an \<^verbatim>\<open>except OSError\<close> (the file name is absent in
  \<^verbatim>\<open>comm\<close>), \<open>Expr_error\<close>, \<open>Bc_error\<close> and \<open>Awk_error\<close> the lines of the
  \<^verbatim>\<open>except Exception\<close> of these three handlers, \<open>Help_line\<close> and \<open>Man_line\<close> the table
  entry of a command, \<open>No_help\<close> and \<open>No_man\<close> the lines for a name that the table
  lacks.\<close>

datatype printed =
    Text string
  | Command_not_found string
  | Execution_error string exn
  | Run_error exn
  | Unknown_error exn
  | Directory_not_found
  | Usage string
  | Alias_set string string
  | Alias_removed string
  | Alias_not_found string
  | Export_set string string
  | Cannot_read "string option" string
  | Checksum_line int nat string
  | Expr_error exn
  | Bc_error exn
  | Awk_error exn
  | Help_line string
  | No_help string
  | Help_header
  | Man_line string
  | No_man string

text \<open>The \<^verbatim>\<open>FileSystem\<close> object, and the \<^verbatim>\<open>Console\<close> object together with the
  two pieces of process state its handlers touch: what has been printed, and the working
  directory of the process, which \<^verbatim>\<open>os.chdir\<close> moves.\<close>

record file_system =
  root_dir :: string

record console =
  file_system :: file_system
  current_dir :: string
  command_history :: "string list"
  aliases :: "string \<rightharpoonup> string"
  environment :: "string \<rightharpoonup> string"
  stdout :: "printed list"
  cwd :: string

text \<open>Reading a file in text mode fails with an \<^verbatim>\<open>OSError\<close> and its message, or with
  \<^verbatim>\<open>UnicodeDecodeError\<close>, which is a \<^verbatim>\<open>ValueError\<close> and no \<^verbatim>\<open>OSError\<close>.\<close>

datatype read_error = OS_error string | Decode_error

text \<open>What a handler finds outside the console.
  \<^item> \<open>os_path_join\<close> is \<^verbatim>\<open>os.path.join\<close>: \<open>posixpath_join\<close> on a POSIX system,
    \<^verbatim>\<open>ntpath.join\<close> on Windows.
  \<^item> \<open>isdir\<close> is \<^verbatim>\<open>os.path.isdir\<close>; \<open>chdir_error\<close> is the message of the \<^verbatim>\<open>OSError\<close>
    that \<^verbatim>\<open>os.chdir\<close> to a path raises, if it raises.
  \<^item> \<open>read_text\<close> is what \<^verbatim>\<open>open(path, 'r')\<close> and reading to the end give; \<open>read_bytes\<close>
    the same for \<^verbatim>\<open>open(path, 'rb')\<close>, where the message is that of the \<^verbatim>\<open>OSError\<close>.
  \<^item> \<open>set_order\<close> is the order in which a Python \<^verbatim>\<open>set\<close> hands out the elements that
    were added to it in the given order.
  \<^item> \<open>recursion_limit\<close> is the number of frames that the interpreter still allows
    inside a call of \<^verbatim>\<open>execute_command\<close> made by \<^verbatim>\<open>run\<close>; \<open>logging_frames\<close> the number
    of frames that a call of \<^verbatim>\<open>logging.error\<close> needs; \<open>handler_frames name\<close> the number
    that the call of the handler of \<open>name\<close> needs, the calls of \<^verbatim>\<open>dfs\<close> in \<^verbatim>\<open>tsort\<close>
    apart. A handler modelled here makes its deepest calls before it prints or assigns
    anything, the evaluation of user text apart.
  \<^item> \<open>py_eval text line st\<close> is \<^verbatim>\<open>eval(text)\<close> in a handler of the console \<open>st\<close>, with
    \<^verbatim>\<open>self\<close> in scope and, in \<^verbatim>\<open>awk\<close>, the line read: nothing when it does not return,
    otherwise the console it leaves (as far as the fields above go) and the exception it
    raises or the \<^verbatim>\<open>str\<close> and the truth value of its result.
  \<^item> \<open>other_command\<close> stands for the handlers of the registry that are not modelled
    here, with the frames left for them: one that returns has printed and may have raised,
    and none of them assigns a field of the console or evaluates user text.\<close>

record host =
  os_path_join :: "string \<Rightarrow> string \<Rightarrow> string"
  isdir :: "string \<Rightarrow> bool"
  chdir_error :: "string \<Rightarrow> string option"
  read_text :: "string \<Rightarrow> read_error + string"
  read_bytes :: "string \<Rightarrow> string + string"
  set_order :: "string list \<Rightarrow> string list"
  recursion_limit :: nat
  logging_frames :: nat
  handler_frames :: "string \<Rightarrow> nat"
  py_eval :: "string \<Rightarrow> string option \<Rightarrow> console \<Rightarrow> ((exn + string \<times> bool) \<times> console) option"
  other_command ::
    "string \<Rightarrow> nat \<Rightarrow> string list \<Rightarrow> console \<Rightarrow> (printed list \<times> exn option) option"

type_synonym handler = "string list \<Rightarrow> console \<Rightarrow> exn option \<times> console"

definition print :: "printed \<Rightarrow> console \<Rightarrow> console" where
  "print m st = st\<lparr>stdout := stdout st @ [m]\<rparr>"

definition print_all :: "printed list \<Rightarrow> console \<Rightarrow> console" where
  "print_all ms st = st\<lparr>stdout := stdout st @ ms\<rparr>"

definition initial_console :: "string \<Rightarrow> console" where
  "initial_console root =
     \<lparr>file_system = \<lparr>root_dir = root\<rparr>, current_dir = ''/'', command_history = [],
      aliases = Map.empty, environment = Map.empty, stdout = [], cwd = root\<rparr>"

subsection \<open>\<^verbatim>\<open>FileSystem._full_path\<close>\<close>

text \<open>\<^verbatim>\<open>_full_path\<close> takes the root directory of the \<^verbatim>\<open>FileSystem\<close> object and the
  path.\<close>

definition full_path :: "host \<Rightarrow> string \<Rightarrow> string \<Rightarrow> string" where
  "full_path H root path = os_path_join H root (lstrip_slash path)"

text \<open>The callers hand \<^verbatim>\<open>os.path.join(self.current_dir, args[0])\<close> to the file
  system, so a user path is resolved against the current directory like this.\<close>

definition resolve :: "host \<Rightarrow> string \<Rightarrow> string \<Rightarrow> string \<Rightarrow> string" where
  "resolve H root cur user = full_path H root (os_path_join H cur user)"

subsection \<open>\<^verbatim>\<open>cd\<close>, \<^verbatim>\<open>alias\<close>, \<^verbatim>\<open>unalias\<close>, \<^verbatim>\<open>export\<close>\<close>

text \<open>\<^verbatim>\<open>FileSystem.change_dir\<close>: an exception of \<^verbatim>\<open>os.chdir\<close> is \<open>Inl\<close>, otherwise the
  boolean it returns and the console with the working directory of the process.\<close>

definition change_dir :: "host \<Rightarrow> console \<Rightarrow> string \<Rightarrow> exn + bool \<times> console" where
  "change_dir H st path =
     (let fp = full_path H (root_dir (file_system st)) path
      in if isdir H fp
         then (case chdir_error H fp of
                 Some e \<Rightarrow> Inl (OSError e)
               | None \<Rightarrow> Inr (True, st\<lparr>cwd := fp\<rparr>))
         else Inr (False, st))"

definition cd :: "host \<Rightarrow> handler" where
  "cd H args st =
     (case args of
        [] \<Rightarrow> (None, print (Usage ''cd'') st)
      | a # _ \<Rightarrow>
          (case change_dir H st (os_path_join H (current_dir st) a) of
             Inl e \<Rightarrow> (Some e, st)
           | Inr (ok, st') \<Rightarrow>
               if ok then (None, st'\<lparr>current_dir := os_path_join H (current_dir st') a\<rparr>)
               else (None, print Directory_not_found st')))"

definition alias_cmd :: handler where
  "alias_cmd args st =
     (if length args = 2
      then (None, print (Alias_set (args ! 0) (args ! 1))
                    (st\<lparr>aliases := (aliases st)(args ! 0 \<mapsto> args ! 1)\<rparr>))
      else (None, print (Usage ''alias'') st))"

definition unalias :: handler where
  "unalias args st =
     (case args of
        [] \<Rightarrow> (None, print (Usage ''unalias'') st)
      | a # _ \<Rightarrow>
          if a \<in> dom (aliases st)
          then (None, print (Alias_removed a) (st\<lparr>aliases := (aliases st)(a := None)\<rparr>))
          else (None, print (Alias_not_found a) st))"

definition export :: handler where
  "export args st =
     (if length args = 2
      then (None, print (Export_set (args ! 0) (args ! 1))
                    (st\<lparr>environment := (environment st)(args ! 0 \<mapsto> args ! 1)\<rparr>))
      else (None, print (Usage ''export'') st))"

subsection \<open>Reading a file\<close>

text \<open>\<^verbatim>\<open>f.readlines()\<close> and the iteration over a file: the lines with their terminators,
  the last one without when the content does not end with one. The content is taken after
  the newline translation of text mode.\<close>

fun readlines_acc :: "string \<Rightarrow> string \<Rightarrow> string list" where
  "readlines_acc w [] = (if w = [] then [] else [w])"
| "readlines_acc w (c # cs) =
     (if c = CHR 0x0A then (w @ [c]) # readlines_acc [] cs else readlines_acc (w @ [c]) cs)"

definition readlines :: "string \<Rightarrow> string list" where
  "readlines content = readlines_acc [] content"

subsection \<open>\<^verbatim>\<open>uniq\<close>\<close>

text \<open>The loop of \<^verbatim>\<open>uniq\<close> over the lines read, with the list \<^verbatim>\<open>unique_lines\<close> and
  the lines printed so far: a line that is not in the list yet is appended to it as it was
  read and printed stripped.\<close>

fun uniq_loop :: "string list \<Rightarrow> string list \<Rightarrow> string list \<Rightarrow> string list" where
  "uniq_loop [] unique_lines out = out"
| "uniq_loop (l # ls) unique_lines out =
     (if l \<notin> set unique_lines then uniq_loop ls (unique_lines @ [l]) (out @ [strip l])
      else uniq_loop ls unique_lines out)"

definition uniq_lines :: "string list \<Rightarrow> string list" where
  "uniq_lines ls = uniq_loop ls [] []"

text \<open>The handler: only an \<^verbatim>\<open>OSError\<close> is caught.\<close>

definition uniq :: "host \<Rightarrow> handler" where
  "uniq H args st =
     (case args of
        [] \<Rightarrow> (None, print (Usage ''uniq'') st)
      | a # _ \<Rightarrow>
          (case read_text H (os_path_join H (current_dir st) a) of
             Inl (OS_error e) \<Rightarrow> (None, print (Cannot_read (Some a) e) st)
           | Inl Decode_error \<Rightarrow> (Some UnicodeDecodeError, st)
           | Inr content \<Rightarrow> (None, print_all (map Text (uniq_lines (readlines content))) st)))"

subsection \<open>\<^verbatim>\<open>comm\<close>\<close>

text \<open>\<^verbatim>\<open>sorted(set(line.strip() for line in f))\<close>, and the three loops of the merge walk,
  on what is left of the two lists from the indices \<^verbatim>\<open>i\<close> and \<^verbatim>\<open>j\<close> on.\<close>

definition sorted_set :: "string list \<Rightarrow> string list" where
  "sorted_set ls = sort (remdups (map strip ls))"

fun comm_walk :: "string list \<Rightarrow> string list \<Rightarrow> string list" where
  "comm_walk [] [] = []"
| "comm_walk (x # xs) [] = (''< '' @ x) # comm_walk xs []"
| "comm_walk [] (y # ys) = (''> '' @ y) # comm_walk [] ys"
| "comm_walk (x # xs) (y # ys) =
     (if x < y then (''< '' @ x) # comm_walk xs (y # ys)
      else if x > y then (''> '' @ y) # comm_walk (x # xs) ys
      else (''  '' @ x) # comm_walk xs ys)"

definition comm_lines :: "string list \<Rightarrow> string list \<Rightarrow> string list" where
  "comm_lines ls1 ls2 = comm_walk (sorted_set ls1) (sorted_set ls2)"

text \<open>The handler opens both files, then reads the first and the second.\<close>

definition comm :: "host \<Rightarrow> handler" where
  "comm H args st =
     (if length args = 2
      then (case read_text H (os_path_join H (current_dir st) (args ! 0)) of
              Inl (OS_error e) \<Rightarrow> (None, print (Cannot_read None e) st)
            | Inl Decode_error \<Rightarrow>
                (case read_text H (os_path_join H (current_dir st) (args ! 1)) of
                   Inl (OS_error e) \<Rightarrow> (None, print (Cannot_read None e) st)
                 | _ \<Rightarrow> (Some UnicodeDecodeError, st))
            | Inr c1 \<Rightarrow>
                (case read_text H (os_path_join H (current_dir st) (args ! 1)) of
                   Inl (OS_error e) \<Rightarrow> (None, print (Cannot_read None e) st)
                 | Inl Decode_error \<Rightarrow> (Some UnicodeDecodeError, st)
                 | Inr c2 \<Rightarrow>
                     (None, print_all (map Text (comm_lines (readlines c1) (readlines c2))) st)))
      else (None, print (Usage ''comm'') st))"

subsection \<open>\<^verbatim>\<open>cksum\<close>\<close>

text \<open>The global name \<^verbatim>\<open>crc32_table\<close> that the loop of \<^verbatim>\<open>cksum\<close> reads: what a
  name is bound to is an option, and neither file of the repository binds this one
  (no assignment, no import, no definition), so reading it raises \<^verbatim>\<open>NameError\<close>.\<close>

definition crc32_table :: "int list option" where
  "crc32_table = None"

text \<open>\<^verbatim>\<open>t[i]\<close> on a list: a negative index counts from the end, an index out of range
  raises.\<close>

definition py_index :: "int list \<Rightarrow> int \<Rightarrow> exn + int" where
  "py_index t i =
     (if 0 \<le> i \<and> i < int (length t) then Inr (t ! nat i)
      else if - int (length t) \<le> i \<and> i < 0 then Inr (t ! nat (int (length t) + i))
      else Inl IndexError)"

text \<open>The loop over the bytes, on Python's unbounded integers, with the binding of the
  table as a parameter.\<close>

fun cksum_loop :: "int list option \<Rightarrow> int \<Rightarrow> string \<Rightarrow> exn + int" where
  "cksum_loop table crc [] = Inr crc"
| "cksum_loop table crc (byte # rest) =
     (case table of
        None \<Rightarrow> Inl (NameError ''crc32_table'')
      | Some t \<Rightarrow>
          (case py_index t (drop_bit 24 crc XOR of_char byte) of
             Inl e \<Rightarrow> Inl e
           | Inr x \<Rightarrow> cksum_loop table (push_bit 8 crc XOR x) rest))"

definition cksum :: "host \<Rightarrow> handler" where
  "cksum H args st =
     (case args of
        [] \<Rightarrow> (None, print (Usage ''cksum'') st)
      | a # _ \<Rightarrow>
          (case read_bytes H (os_path_join H (current_dir st) a) of
             Inl e \<Rightarrow> (None, print (Cannot_read (Some a) e) st)
           | Inr content \<Rightarrow>
               (case cksum_loop crc32_table 0 content of
                  Inl e \<Rightarrow> (Some e, st)
                | Inr crc \<Rightarrow>
                    (None, print (Checksum_line (crc AND 0xFFFFFFFF) (length content) a) st))))"

subsection \<open>\<^verbatim>\<open>tsort\<close>\<close>

text \<open>The dictionary \<^verbatim>\<open>graph\<close> keeps its keys in the order of insertion; the set stored
  under a key is the list of its elements in the order they were added, and
  \<open>set_order\<close> of the host decides the order in which the loop over it sees them.\<close>

type_synonym graph = "(string \<times> string list) list"

definition add_node :: "string \<Rightarrow> graph \<Rightarrow> graph" where
  "add_node u g = (if u \<in> fst ` set g then g else g @ [(u, [])])"

definition add_edge :: "string \<Rightarrow> string \<Rightarrow> graph \<Rightarrow> graph" where
  "add_edge u v g =
     map (\<lambda>(k, vs). if k = u then (k, if v \<in> set vs then vs else vs @ [v]) else (k, vs)) g"

text \<open>\<^verbatim>\<open>for u, v in edges\<close>: unpacking a line that does not have two tokens raises
  \<^verbatim>\<open>ValueError\<close>.\<close>

fun build_graph :: "string list list \<Rightarrow> graph \<Rightarrow> exn + graph" where
  "build_graph [] g = Inr g"
| "build_graph (e # es) g =
     (if length e = 2
      then build_graph es (add_edge (e ! 0) (e ! 1) (add_node (e ! 1) (add_node (e ! 0) g)))
      else Inl ValueError)"

text \<open>\<^verbatim>\<open>graph.get(node, set())\<close>, in the order of the loop over it.\<close>

definition neighbours :: "host \<Rightarrow> graph \<Rightarrow> string \<Rightarrow> string list" where
  "neighbours H g node = (case map_of g node of Some vs \<Rightarrow> set_order H vs | None \<Rightarrow> [])"

text \<open>A \<^verbatim>\<open>for\<close> loop that an exception of its body leaves.\<close>

fun for_each :: "('a \<Rightarrow> 's \<Rightarrow> exn + 's) \<Rightarrow> 'a list \<Rightarrow> 's \<Rightarrow> exn + 's" where
  "for_each body [] s = Inr s"
| "for_each body (x # xs) s =
     (case body x s of Inl e \<Rightarrow> Inl e | Inr s' \<Rightarrow> for_each body xs s')"

text \<open>The nested function \<^verbatim>\<open>dfs\<close>; the two variables it closes over, \<^verbatim>\<open>visited\<close> and
  \<^verbatim>\<open>result\<close>, are the state it passes on. The number is that of the frames left where
  \<^verbatim>\<open>dfs\<close> is called: with none left the call raises, otherwise the calls in the body have
  one frame less.\<close>

type_synonym dfs_state = "string set \<times> string list"

fun dfs :: "host \<Rightarrow> graph \<Rightarrow> nat \<Rightarrow> string \<Rightarrow> dfs_state \<Rightarrow> exn + dfs_state" where
  "dfs H g 0 node s = Inl RecursionError"
| "dfs H g (Suc k) node s =
     (if node \<in> fst s then Inr s
      else (case for_each (dfs H g k) (neighbours H g node) (insert node (fst s), snd s) of
              Inl e \<Rightarrow> Inl e
            | Inr s' \<Rightarrow> Inr (fst s', snd s' @ [node])))"

text \<open>\<^verbatim>\<open>for node in graph: dfs(node)\<close> and the reversed result, with the frames left in
  the body of \<^verbatim>\<open>tsort\<close>.\<close>

definition tsort_order :: "host \<Rightarrow> nat \<Rightarrow> graph \<Rightarrow> exn + string list" where
  "tsort_order H k g =
     (case for_each (dfs H g k) (map fst g) ({}, []) of
        Inl e \<Rightarrow> Inl e
      | Inr s \<Rightarrow> Inr (rev (snd s)))"

definition tsort_lines :: "host \<Rightarrow> nat \<Rightarrow> string list \<Rightarrow> exn + string list" where
  "tsort_lines H k ls =
     (case build_graph (map (\<lambda>l. split (strip l)) ls) [] of
        Inl e \<Rightarrow> Inl e
      | Inr g \<Rightarrow> tsort_order H k g)"

text \<open>The handler, called where \<open>k\<close> frames are left: its own frame takes one. Only an
  \<^verbatim>\<open>OSError\<close> is caught.\<close>

definition tsort :: "host \<Rightarrow> nat \<Rightarrow> handler" where
  "tsort H k args st =
     (case args of
        [] \<Rightarrow> (None, print (Usage ''tsort'') st)
      | a # _ \<Rightarrow>
          (case read_text H (os_path_join H (current_dir st) a) of
             Inl (OS_error e) \<Rightarrow> (None, print (Cannot_read (Some a) e) st)
           | Inl Decode_error \<Rightarrow> (Some UnicodeDecodeError, st)
           | Inr content \<Rightarrow>
               (case tsort_lines H (k - 1) (readlines content) of
                  Inl e \<Rightarrow> (Some e, st)
                | Inr order \<Rightarrow> (None, print (Text (join_sp order)) st))))"

subsection \<open>\<^verbatim>\<open>expr\<close>, \<^verbatim>\<open>bc\<close>, \<^verbatim>\<open>awk\<close>\<close>

text \<open>The three handlers that hand user text to \<^verbatim>\<open>eval\<close>. Each catches every exception
  of the evaluation and prints its own line; none returns when the evaluation does not.\<close>

definition expr :: "host \<Rightarrow> string list \<Rightarrow> console \<Rightarrow> (exn option \<times> console) option" where
  "expr H args st =
     (if args = [] then Some (None, print (Usage ''expr'') st)
      else (case py_eval H (join_sp args) None st of
              None \<Rightarrow> None
            | Some (Inl e, st') \<Rightarrow> Some (None, print (Expr_error e) st')
            | Some (Inr (text, truth), st') \<Rightarrow> Some (None, print (Text text) st')))"

definition bc :: "host \<Rightarrow> string list \<Rightarrow> console \<Rightarrow> (exn option \<times> console) option" where
  "bc H args st =
     (if args = [] then Some (None, print (Usage ''bc'') st)
      else (case py_eval H (join_sp args) None st of
              None \<Rightarrow> None
            | Some (Inl e, st') \<Rightarrow> Some (None, print (Bc_error e) st')
            | Some (Inr (text, truth), st') \<Rightarrow> Some (None, print (Text text) st')))"

text \<open>The loop of \<^verbatim>\<open>awk\<close> over the lines: the script is evaluated for each line, which
  is printed stripped when the result is true. The lines are those of the whole file.\<close>

fun awk_loop :: "host \<Rightarrow> string \<Rightarrow> string list \<Rightarrow> console \<Rightarrow> (exn option \<times> console) option"
where
  "awk_loop H script [] st = Some (None, st)"
| "awk_loop H script (line # ls) st =
     (case py_eval H script (Some line) st of
        None \<Rightarrow> None
      | Some (Inl e, st') \<Rightarrow> Some (Some e, st')
      | Some (Inr (text, truth), st') \<Rightarrow>
          awk_loop H script ls (if truth then print (Text (strip line)) st' else st'))"

definition awk :: "host \<Rightarrow> string list \<Rightarrow> console \<Rightarrow> (exn option \<times> console) option" where
  "awk H args st =
     (if 2 \<le> length args
      then (case read_text H (os_path_join H (current_dir st) (args ! 1)) of
              Inl (OS_error e) \<Rightarrow> Some (None, print (Cannot_read (Some (args ! 1)) e) st)
            | Inl Decode_error \<Rightarrow> Some (None, print (Awk_error UnicodeDecodeError) st)
            | Inr content \<Rightarrow>
                (case awk_loop H (args ! 0) (readlines content) st of
                   None \<Rightarrow> None
                 | Some (None, st') \<Rightarrow> Some (None, st')
                 | Some (Some e, st') \<Rightarrow> Some (None, print (Awk_error e) st')))
      else Some (None, print (Usage ''awk'') st))"

subsection \<open>The command tables\<close>

text \<open>The keys of \<^verbatim>\<open>self.commands\<close> in \<^verbatim>\<open>Console.__init__\<close>, of \<^verbatim>\<open>help_text\<close> in
  \<^verbatim>\<open>help\<close> and of \<^verbatim>\<open>man_pages\<close> in \<^verbatim>\<open>man\<close>, each in the order of the source.\<close>

definition command_names :: "string list" where
  "command_names =
     [''about'', ''alias'', ''cal'', ''cat'', ''cd'', ''chmod'', ''chown'',
      ''clear'', ''cp'', ''date'', ''df'', ''du'', ''echo'', ''env'', ''export'',
      ''find'', ''grep'', ''head'', ''help'', ''history'', ''kill'', ''ln'', ''ls'',
      ''man'', ''mkdir'', ''mv'', ''ps'', ''pwd'', ''rm'', ''rmdir'', ''sleep'',
      ''sort'', ''top'', ''touch'', ''uname'', ''unalias'', ''uniq'', ''uptime'',
      ''wc'', ''whereis'', ''which'', ''whoami'', ''tail'', ''cut'', ''paste'',
      ''tr'', ''sed'', ''awk'', ''printf'', ''test'', ''expr'', ''bc'', ''time'',
      ''watch'', ''yes'', ''seq'', ''shuf'', ''nl'', ''fold'', ''expand'',
      ''unexpand'', ''join'', ''comm'', ''diff'', ''patch'', ''cmp'', ''sum'',
      ''cksum'', ''md5sum'', ''sha1sum'', ''sha256sum'', ''factor'', ''numfmt'',
      ''od'', ''hexdump'', ''strings'', ''file'', ''mime'', ''stat'', ''mktemp'',
      ''realpath'', ''dirname'', ''basename'', ''pathchk'', ''readlink'', ''link'',
      ''unlink'', ''truncate'', ''split'', ''csplit'', ''fmt'', ''pr'', ''ul'',
      ''col'', ''colrm'', ''column'', ''rev'', ''tac'', ''tsort'']"

definition help_text_keys :: "string list" where
  "help_text_keys =
     [''about'', ''alias'', ''awk'', ''basename'', ''bc'', ''cal'', ''cat'', ''cd'',
      ''chmod'', ''chown'', ''cksum'', ''clear'', ''cmp'', ''col'', ''colrm'',
      ''column'', ''comm'', ''cp'', ''csplit'', ''cut'', ''date'', ''df'', ''diff'',
      ''dirname'', ''du'', ''echo'', ''env'', ''expand'', ''expr'', ''factor'',
      ''file'', ''find'', ''fmt'', ''fold'', ''grep'', ''head'', ''hexdump'',
      ''history'', ''join'', ''kill'', ''link'', ''ln'', ''ls'', ''man'', ''md5sum'',
      ''mime'', ''mkdir'', ''mktemp'', ''mv'', ''nl'', ''numfmt'', ''od'', ''paste'',
      ''patch'', ''pathchk'', ''pr'', ''printf'', ''ps'', ''pwd'', ''readlink'',
      ''realpath'', ''rev'', ''rm'', ''rmdir'', ''sed'', ''seq'', ''sha1sum'',
      ''sha256sum'', ''shuf'', ''sleep'', ''sort'', ''split'', ''stat'', ''strings'',
      ''sum'', ''tac'', ''tail'', ''test'', ''time'', ''top'', ''touch'', ''tr'',
      ''truncate'', ''tsort'', ''ul'', ''unalias'', ''uname'', ''unexpand'',
      ''uniq'', ''unlink'', ''uptime'', ''watch'', ''wc'', ''whereis'', ''which'',
      ''whoami'', ''yes'']"

definition man_pages_keys :: "string list" where
  "man_pages_keys =
     [''about'', ''alias'', ''awk'', ''basename'', ''bc'', ''cal'', ''cat'', ''cd'',
      ''chmod'', ''chown'', ''cksum'', ''clear'', ''cmp'', ''col'', ''colrm'',
      ''column'', ''comm'', ''cp'', ''csplit'', ''cut'', ''date'', ''df'', ''diff'',
      ''dirname'', ''du'', ''echo'', ''env'', ''expand'', ''expr'', ''factor'',
      ''file'', ''find'', ''fmt'', ''fold'', ''grep'', ''head'', ''hexdump'',
      ''history'', ''join'', ''kill'', ''link'', ''ln'', ''ls'', ''man'', ''md5sum'',
      ''mime'', ''mkdir'', ''mktemp'', ''mv'', ''nl'', ''numfmt'', ''od'', ''paste'',
      ''patch'', ''pathchk'', ''pr'', ''printf'', ''ps'', ''pwd'', ''readlink'',
      ''realpath'', ''rev'', ''rm'', ''rmdir'', ''sed'', ''seq'', ''sha1sum'',
      ''sha256sum'', ''shuf'', ''sleep'', ''sort'', ''split'', ''stat'', ''strings'',
      ''sum'', ''tac'', ''tail'', ''test'', ''time'', ''top'', ''touch'', ''tr'',
      ''truncate'', ''tsort'', ''ul'', ''unalias'', ''uname'', ''unexpand'',
      ''uniq'', ''unlink'', ''uptime'', ''watch'', ''wc'', ''whereis'', ''which'',
      ''whoami'', ''yes'']"

definition help_cmd :: handler where
  "help_cmd args st =
     (case args of
        [] \<Rightarrow> (None, print_all (Help_header # map Help_line (sort help_text_keys)) st)
      | a # _ \<Rightarrow>
          if lower a \<in> set help_text_keys then (None, print (Help_line (lower a)) st)
          else (None, print (No_help (lower a)) st))"

definition man :: handler where
  "man args st =
     (case args of
        [] \<Rightarrow> (None, print (Usage ''man'') st)
      | a # _ \<Rightarrow>
          if lower a \<in> set man_pages_keys then (None, print (Man_line (lower a)) st)
          else (None, print (No_man (lower a)) st))"

subsection \<open>The dispatcher and the loop of \<^verbatim>\<open>run\<close>\<close>

text \<open>What the registry holds is called where some number of frames is left, and may fail
  to return (\<^verbatim>\<open>yes\<close> and \<^verbatim>\<open>watch\<close> loop until they are interrupted). The handlers
  modelled above return; those not modelled print what the host says and raise what the
  host says, if they return.\<close>

type_synonym entry = "nat \<Rightarrow> string list \<Rightarrow> console \<Rightarrow> (exn option \<times> console) option"

definition returning :: "handler \<Rightarrow> entry" where
  "returning h k args st = Some (h args st)"

definition other :: "host \<Rightarrow> string \<Rightarrow> entry" where
  "other H name k args st =
     map_option (\<lambda>(out, e). (e, print_all out st)) (other_command H name k args st)"

definition commands :: "host \<Rightarrow> string \<Rightarrow> entry option" where
  "commands H name =
     (if name \<notin> set command_names then None
      else if name = ''cd'' then Some (returning (cd H))
      else if name = ''alias'' then Some (returning alias_cmd)
      else if name = ''unalias'' then Some (returning unalias)
      else if name = ''export'' then Some (returning export)
      else if name = ''help'' then Some (returning help_cmd)
      else if name = ''man'' then Some (returning man)
      else if name = ''uniq'' then Some (returning (uniq H))
      else if name = ''comm'' then Some (returning (comm H))
      else if name = ''cksum'' then Some (returning (cksum H))
      else if name = ''tsort'' then Some (\<lambda>k. returning (tsort H k) k)
      else if name = ''expr'' then Some (\<lambda>k. expr H)
      else if name = ''bc'' then Some (\<lambda>k. bc H)
      else if name = ''awk'' then Some (\<lambda>k. awk H)
      else Some (other H name))"

text \<open>The \<^verbatim>\<open>except Exception\<close> of \<^verbatim>\<open>execute_command\<close>, where \<open>k\<close> frames are left: the
  line is printed, and \<^verbatim>\<open>logging.error\<close> raises in its turn when it lacks frames; its
  exception then leaves \<^verbatim>\<open>execute_command\<close>.\<close>

definition report :: "host \<Rightarrow> nat \<Rightarrow> string \<Rightarrow> exn \<Rightarrow> console \<Rightarrow> exn option \<times> console" where
  "report H k command e st =
     (if k < logging_frames H then Some RecursionError else None,
      print (Execution_error command e) st)"

text \<open>\<^verbatim>\<open>execute_command\<close>, with the number \<open>k\<close> of frames left inside its own frame. The
  call for an alias and the call of the handler are inside the \<^verbatim>\<open>try\<close>: with no frame
  left the first raises \<^verbatim>\<open>RecursionError\<close>, as the second does with fewer frames than
  the handler needs, and whatever is raised is reported with the command line of this
  frame, which is the expanded one behind the assignment in the alias branch. The result
  is nothing when the handler does not return, otherwise the exception that leaves the
  call, if any, and the console.\<close>

fun execute_command :: "host \<Rightarrow> nat \<Rightarrow> console \<Rightarrow> string \<Rightarrow> (exn option \<times> console) option"
where
  "execute_command H k st command =
     (case split command of
        [] \<Rightarrow> Some (None, st)
      | p # args \<Rightarrow>
          (case aliases st (lower p) of
             Some expansion \<Rightarrow>
               (case k of
                  0 \<Rightarrow> Some (report H k (expansion @ '' '' @ join_sp args) RecursionError st)
                | Suc k' \<Rightarrow>
                    (case execute_command H k' st (expansion @ '' '' @ join_sp args) of
                       None \<Rightarrow> None
                     | Some (None, st') \<Rightarrow> Some (None, st')
                     | Some (Some e, st') \<Rightarrow>
                         Some (report H k (expansion @ '' '' @ join_sp args) e st')))
           | None \<Rightarrow>
               (case commands H (lower p) of
                  Some handler \<Rightarrow>
                    if k < handler_frames H (lower p)
                    then Some (report H k command RecursionError st)
                    else (case handler k args st of
                            None \<Rightarrow> None
                          | Some (None, st') \<Rightarrow> Some (None, st')
                          | Some (Some e, st') \<Rightarrow> Some (report H k command e st'))
                | None \<Rightarrow> Some (None, print (Command_not_found (lower p)) st))))"

declare execute_command.simps [simp del]

text \<open>One round of the loop of \<^verbatim>\<open>run\<close> on the line that \<^verbatim>\<open>input\<close> returned: the
  loop ends on \<^verbatim>\<open>exit\<close>, otherwise the stripped line goes to the history and to the
  dispatcher. An exception that leaves the dispatcher is printed by the inner
  \<^verbatim>\<open>except Exception\<close>, and when \<^verbatim>\<open>logging.error\<close> lacks frames there too, by the outer
  one, behind which the loop is left.\<close>

datatype round = Exited console | Continues console | Aborted console

definition run_round :: "host \<Rightarrow> console \<Rightarrow> string \<Rightarrow> round option" where
  "run_round H st raw =
     (let command = strip raw
      in if lower command = ''exit'' then Some (Exited st)
         else (case execute_command H (recursion_limit H)
                      (st\<lparr>command_history := command_history st @ [command]\<rparr>) command of
                 None \<Rightarrow> None
               | Some (None, st') \<Rightarrow> Some (Continues st')
               | Some (Some e, st') \<Rightarrow>
                   if Suc (recursion_limit H) < logging_frames H
                   then Some (Aborted (print (Unknown_error RecursionError)
                                         (print (Run_error e) st')))
                   else Some (Continues (print (Run_error e) st'))))"


subsection \<open>Hosts and inputs for the examples\<close>

text \<open>A POSIX host with the given directories, of which the locked ones cannot be entered,
  and the given files, all of them text. Its sets hand out their elements in the order of
  insertion, the interpreter leaves it 990 frames, \<^verbatim>\<open>logging.error\<close> needs 8 of them and
  every handler 6, and its other commands print nothing. Its \<^verbatim>\<open>eval\<close> knows the one text
  \<open>alias_assignment\<close>, a call that stores an alias of two words and returns \<^verbatim>\<open>None\<close>, and is
  taken to raise on every other text.\<close>

definition alias_assignment :: string where
  "alias_assignment = ''self.aliases.update(ll='' @ [CHR 0x27] @ ''ls -a'' @ [CHR 0x27] @ '')''"

definition example_host :: "string list \<Rightarrow> string list \<Rightarrow> (string \<times> string) list \<Rightarrow> host" where
  "example_host dirs locked files =
     \<lparr>os_path_join = posixpath_join,
      isdir = (\<lambda>p. p \<in> set dirs),
      chdir_error = (\<lambda>p. if p \<in> set locked then Some ''Permission denied'' else None),
      read_text = (\<lambda>p. case map_of files p of
                           Some content \<Rightarrow> Inr content
                         | None \<Rightarrow> Inl (OS_error ''No such file or directory'')),
      read_bytes = (\<lambda>p. case map_of files p of
                            Some content \<Rightarrow> Inr content
                          | None \<Rightarrow> Inl ''No such file or directory''),
      set_order = (\<lambda>vs. vs),
      recursion_limit = 990,
      logging_frames = 8,
      handler_frames = (\<lambda>name. 6),
      py_eval = (\<lambda>text line st.
                   if text = alias_assignment
                   then Some (Inr (''None'', False), st\<lparr>aliases := (aliases st)(''ll'' \<mapsto> ''ls -a'')\<rparr>)
                   else Some (Inl (NameError text), st)),
      other_command = (\<lambda>name k args st. Some ([], None))\<rparr>"


text \<open>Alias tables and consoles: an alias that names itself, an alias for a registered
  command, the console after the first round of \<^verbatim>\<open>run\<close> has read \<^verbatim>\<open>alias ll ls\<close>, and the
  console after it has read \<^verbatim>\<open>expr\<close> with the text above.\<close>

definition self_alias :: "string \<rightharpoonup> string" where
  "self_alias = [''a'' \<mapsto> ''a'']"

definition ll_alias :: "string \<rightharpoonup> string" where
  "ll_alias = [''ll'' \<mapsto> ''ls'']"



text \<open>The lines of two files: \<^verbatim>\<open>a b\<close>, \<^verbatim>\<open>b c\<close>, and \<^verbatim>\<open>a b\<close>, \<^verbatim>\<open>b a\<close>; and a file
  of two lines whose second has no terminator.\<close>

definition dag_lines :: "string list" where
  "dag_lines =
     [[CHR ''a'', CHR '' '', CHR ''b'', CHR 0x0A], [CHR ''b'', CHR '' '', CHR ''c'', CHR 0x0A]]"

definition cycle_lines :: "string list" where
  "cycle_lines =
     [[CHR ''a'', CHR '' '', CHR ''b'', CHR 0x0A], [CHR ''b'', CHR '' '', CHR ''a'', CHR 0x0A]]"

definition twice_a :: string where
  "twice_a = [CHR ''a'', CHR 0x0A, CHR ''a'']"

subsection \<open>Notions used to state the properties\<close>

text \<open>One alias expansion of a command line, when its first token names an alias, and the
  line after \<open>n\<close> expansions.\<close>

definition alias_next :: "(string \<rightharpoonup> string) \<Rightarrow> string \<Rightarrow> string option" where
  "alias_next A command =
     (case split command of
        [] \<Rightarrow> None
      | p # args \<Rightarrow> map_option (\<lambda>expansion. expansion @ '' '' @ join_sp args) (A (lower p)))"

fun expand :: "(string \<rightharpoonup> string) \<Rightarrow> nat \<Rightarrow> string \<Rightarrow> string option" where
  "expand A 0 command = Some command"
| "expand A (Suc n) command =
     (case alias_next A command of None \<Rightarrow> None | Some command' \<Rightarrow> expand A n command')"

text \<open>The alias names expanded in the first \<open>n\<close> expansions of a command line.\<close>

fun chain :: "(string \<rightharpoonup> string) \<Rightarrow> nat \<Rightarrow> string \<Rightarrow> string list" where
  "chain A 0 command = []"
| "chain A (Suc n) command =
     (case split command of
        [] \<Rightarrow> []
      | p # args \<Rightarrow>
          (case A (lower p) of
             None \<Rightarrow> []
           | Some expansion \<Rightarrow> lower p # chain A n (expansion @ '' '' @ join_sp args)))"

text \<open>What \<^verbatim>\<open>execute_command\<close> does, with \<open>k\<close> frames left, with a command line below its
  test for an alias: the lookup in the registry, the call of the handler and the two
  messages.\<close>

definition dispatch :: "host \<Rightarrow> nat \<Rightarrow> console \<Rightarrow> string \<Rightarrow> (exn option \<times> console) option" where
  "dispatch H k st command =
     (case split command of
        [] \<Rightarrow> Some (None, st)
      | p # args \<Rightarrow>
          (case commands H (lower p) of
             Some handler \<Rightarrow>
               if k < handler_frames H (lower p)
               then Some (report H k command RecursionError st)
               else (case handler k args st of
                       None \<Rightarrow> None
                     | Some (None, st') \<Rightarrow> Some (None, st')
                     | Some (Some e, st') \<Rightarrow> Some (report H k command e st'))
           | None \<Rightarrow> Some (None, print (Command_not_found (lower p)) st)))"

text \<open>A host whose handlers all return: the evaluation of user text and the handlers that
  are not modelled.\<close>

definition handlers_return :: "host \<Rightarrow> bool" where
  "handlers_return H =
     ((\<forall>text line st. py_eval H text line st \<noteq> None)
      \<and> (\<forall>name k args st. other_command H name k args st \<noteq> None))"

text \<open>A line of \<^verbatim>\<open>execute_command\<close> for a \<^verbatim>\<open>RecursionError\<close>.\<close>

definition recursion_line :: "printed \<Rightarrow> bool" where
  "recursion_line l = (\<exists>command. l = Execution_error command RecursionError)"




text \<open>The position at which a line occurs first in a list of lines.\<close>

definition first_index :: "string list \<Rightarrow> string \<Rightarrow> nat" where
  "first_index ls x = length (takeWhile (\<lambda>y. y \<noteq> x) ls)"

text \<open>The lines that the loop of \<^verbatim>\<open>uniq\<close> appends to \<^verbatim>\<open>unique_lines\<close> when it
  starts with the list \<open>u\<close>.\<close>

fun kept :: "string list \<Rightarrow> string list \<Rightarrow> string list" where
  "kept u [] = []"
| "kept u (l # ls) = (if l \<in> set u then kept u ls else l # kept (u @ [l]) ls)"

text \<open>Notions for \<^verbatim>\<open>tsort\<close>: the edges that the loops of \<^verbatim>\<open>dfs\<close> follow; the nodes that
  can be met at all; the nodes whose call of \<^verbatim>\<open>dfs\<close> has begun and not ended, which are
  visited and not yet in the result; and a result in which every node stands behind all
  its neighbours.\<close>

definition succs :: "host \<Rightarrow> graph \<Rightarrow> (string \<times> string) set" where
  "succs H g = {(u, v). v \<in> set (neighbours H g u)}"

definition universe :: "host \<Rightarrow> graph \<Rightarrow> string set" where
  "universe H g = fst ` set g \<union> (\<Union>u \<in> fst ` set g. set (neighbours H g u))"

definition gray :: "dfs_state \<Rightarrow> string set" where
  "gray s = fst s - set (snd s)"

definition ordered :: "host \<Rightarrow> graph \<Rightarrow> string list \<Rightarrow> bool" where
  "ordered H g R =
     (\<forall>x \<in> set R. \<forall>y \<in> set (neighbours H g x). y \<in> set R \<and> first_index R y < first_index R x)"

text \<open>What holds before and after the loop \<^verbatim>\<open>for x in xs: dfs(x)\<close>.\<close>

definition pre :: "host \<Rightarrow> graph \<Rightarrow> string list \<Rightarrow> dfs_state \<Rightarrow> bool" where
  "pre H g xs s =
     (set (snd s) \<subseteq> fst s \<and> distinct (snd s)
      \<and> (\<forall>y \<in> gray s. \<forall>x \<in> set xs. (y, x) \<in> (succs H g)\<^sup>+))"

definition post :: "host \<Rightarrow> graph \<Rightarrow> string list \<Rightarrow> dfs_state \<Rightarrow> dfs_state \<Rightarrow> bool" where
  "post H g xs s s' =
     (set (snd s') \<subseteq> fst s' \<and> distinct (snd s')
      \<and> fst s \<subseteq> fst s' \<and> set xs \<subseteq> fst s' \<and> fst s' \<subseteq> fst s \<union> universe H g
      \<and> gray s' = gray s \<and> prefix (snd s) (snd s')
      \<and> (acyclic (succs H g) \<and> ordered H g (snd s) \<longrightarrow> ordered H g (snd s')))"

text \<open>The edges that the lines of a file name, \<open>u\<close> standing before \<open>v\<close> in a list, and the
  edges that the dictionary \<^verbatim>\<open>graph\<close> holds.\<close>

definition edges_of_lines :: "string list \<Rightarrow> (string \<times> string) set" where
  "edges_of_lines ls = (\<lambda>l. (split (strip l) ! 0, split (strip l) ! 1)) ` set ls"

definition stands_before :: "string list \<Rightarrow> string \<Rightarrow> string \<Rightarrow> bool" where
  "stands_before order u v = (\<exists>xs ys zs. order = xs @ u # ys @ v # zs)"

definition graph_edges :: "graph \<Rightarrow> (string \<times> string) set" where
  "graph_edges g = {(u, v). \<exists>vs. map_of g u = Some vs \<and> v \<in> set vs}"

section \<open>Properties\<close>

subsection \<open>Facts about paths\<close>

lemma split_on_nonempty: "split_on d s \<noteq> []"
  by (induction s) auto

lemma split_on_append_sep: "split_on d (a @ d # b) = split_on d a @ split_on d b"
proof (induction a)
  case Nil
  show ?case by simp
next
  case (Cons c a)
  show ?case
  proof (cases "c = d")
    case True
    with Cons show ?thesis by simp
  next
    case False
    have ne: "split_on d a \<noteq> []" by (rule split_on_nonempty)
    from False Cons ne show ?thesis by (simp add: hd_append)
  qed
qed

lemma split_on_snoc_sep: "split_on d (a @ [d]) = split_on d a @ [[]]"
  using split_on_append_sep [of d a "[]"] by simp

lemma segments_append_sep: "segments (a @ CHR ''/'' # b) = segments a @ segments b"
  by (simp add: segments_def split_on_append_sep)

lemma segments_snoc_sep: "segments (a @ ''/'') = segments a"
  by (simp add: segments_def split_on_snoc_sep)

lemma segments_Nil: "segments [] = []"
  by (simp add: segments_def)



lemma segments_posixpath_join_rel:
  assumes "b = [] \<or> hd b \<noteq> CHR ''/''"
  shows "segments (posixpath_join a b) = segments a @ segments b"
proof (cases "a = []")
  case True
  with assms show ?thesis by (auto simp: posixpath_join_def segments_Nil)
next
  case False
  show ?thesis
  proof (cases "last a = CHR ''/''")
    case True
    with False have a: "a = butlast a @ ''/''"
      by (metis append_butlast_last_id)
    have "segments (a @ b) = segments (butlast a @ CHR ''/'' # b)"
      using a by (metis append_Cons append_Nil append_assoc)
    also have "\<dots> = segments (butlast a) @ segments b"
      by (rule segments_append_sep)
    also have "segments (butlast a) = segments a"
      using a segments_snoc_sep [of "butlast a"] by simp
    finally show ?thesis using assms True False by (auto simp: posixpath_join_def)
  next
    case nl: False
    with False assms show ?thesis
      by (auto simp: posixpath_join_def segments_append_sep)
  qed
qed

lemma segments_posixpath_join_subset:
  "set (segments (posixpath_join a b)) \<subseteq> set (segments a) \<union> set (segments b)"
proof (cases "b = [] \<or> hd b \<noteq> CHR ''/''")
  case True
  then show ?thesis by (simp add: segments_posixpath_join_rel)
next
  case False
  then show ?thesis by (auto simp: posixpath_join_def)
qed





subsection \<open>Claim C1\<close>




subsection \<open>Facts about tokens\<close>

lemma split_acc_blank:
  "\<forall>c \<in> set s. is_space c \<Longrightarrow> split_acc w s = (if w = [] then [] else [w])"
  by (induction s arbitrary: w) auto

lemma split_blank: "\<forall>c \<in> set s. is_space c \<Longrightarrow> split s = []"
  by (simp add: split_def split_acc_blank)

lemma dropWhile_blank: "\<forall>c \<in> set s. is_space c \<Longrightarrow> dropWhile is_space s = []"
  by (induction s) auto

lemma strip_blank: "\<forall>c \<in> set s. is_space c \<Longrightarrow> strip s = []"
  by (simp add: strip_def dropWhile_blank)



lemma execute_command_blank:
  assumes "split line = []"
  shows "execute_command H k st line = Some (None, st)"
  by (subst execute_command.simps) (simp add: assms)

subsection \<open>Claim C10\<close>

text \<open>
  C10: for every input line that is empty or holds only whitespace,
  \<^verbatim>\<open>execute_command\<close> returns at once, whatever the frames left: it prints nothing,
  raises nothing and leaves the alias table, the environment and the current directory as
  they were (the console it returns is the console it was given), while the round of
  \<^verbatim>\<open>run\<close> that read the line has appended the stripped line to the history.
\<close>

theorem blank_line_is_no_op:
  assumes "\<forall>c \<in> set line. is_space c"
  shows "execute_command H k st line = Some (None, st)
         \<and> run_round H st line
             = Some (Continues (st\<lparr>command_history := command_history st @ [[]]\<rparr>))"
proof -
  have a: "execute_command H k st line = Some (None, st)"
    using assms by (simp add: execute_command_blank split_blank)
  have s: "strip line = []" using assms by (rule strip_blank)
  have b: "execute_command H (recursion_limit H)
             (st\<lparr>command_history := command_history st @ [[]]\<rparr>) []
           = Some (None, st\<lparr>command_history := command_history st @ [[]]\<rparr>)"
    by (rule execute_command_blank) (simp add: split_def)
  have c: "run_round H st line
             = Some (Continues (st\<lparr>command_history := command_history st @ [[]]\<rparr>))"
    unfolding run_round_def Let_def s using b by (simp add: lower_def)
  show ?thesis using a c by simp
qed

theorem blank_line_is_no_op_witness:
  "is_space CHR '' '' \<and> is_space (CHR 0x09)
   \<and> execute_command (example_host [] [] []) 990 (initial_console ''/srv'')
        [CHR '' '', CHR 0x09, CHR '' ''] = Some (None, initial_console ''/srv'')
   \<and> run_round (example_host [] [] []) (initial_console ''/srv'') [CHR '' '', CHR 0x09, CHR '' '']
       = Some (Continues ((initial_console ''/srv'')
            \<lparr>command_history := command_history (initial_console ''/srv'') @ [[]]\<rparr>))"
proof -
  have h: "\<forall>c \<in> set [CHR '' '', CHR 0x09, CHR '' '']. is_space c"
    by (simp add: is_space_def)
  have sp: "is_space CHR '' '' \<and> is_space (CHR 0x09)"
    by (simp add: is_space_def)
  show ?thesis
    using sp blank_line_is_no_op [OF h, of "example_host [] [] []" 990 "initial_console ''/srv''"]
    by blast
qed

subsection \<open>Claim C8\<close>

text \<open>
  C8, as the specification states it: \<^verbatim>\<open>cd\<close> updates the current directory if and only
  if the resolved path is an existing directory, and otherwise leaves it unchanged and
  prints the directory-not-found line. \<^verbatim>\<open>change_dir\<close> calls \<^verbatim>\<open>os.chdir\<close> between the
  test and its \<^verbatim>\<open>return True\<close>; for a directory that exists and cannot be entered the
  call raises, the assignment in \<^verbatim>\<open>cd\<close> is never reached and the exception goes to the
  dispatcher: the directory exists and the current directory stays.
\<close>

theorem cd_existing_directory_not_entered:
  "isdir (example_host [''/srv/a''] [''/srv/a''] [])
     (resolve (example_host [''/srv/a''] [''/srv/a''] []) ''/srv'' ''/'' ''a'')
   \<and> cd (example_host [''/srv/a''] [''/srv/a''] []) [''a''] (initial_console ''/srv'')
       = (Some (OSError ''Permission denied''), initial_console ''/srv'')
   \<and> current_dir (initial_console ''/srv'') = ''/''"
  by (simp add: example_host_def resolve_def full_path_def posixpath_join_def lstrip_slash_def
      cd_def change_dir_def initial_console_def)

text \<open>
  C8 as amended: for every current directory and every argument path, \<^verbatim>\<open>cd\<close> sets the
  current directory to the argument joined onto it, and prints nothing, if and only if the
  resolved path is an existing directory and \<^verbatim>\<open>os.chdir\<close> to it succeeds; when the
  resolved path is not an existing directory the current directory is unchanged and the
  directory-not-found line is printed; when it exists and \<^verbatim>\<open>os.chdir\<close> raises, the
  console is unchanged and the exception leaves the handler.
\<close>

theorem cd_changes_directory:
  fixes H st a rest
  defines "target \<equiv> os_path_join H (current_dir st) a"
  defines "fp \<equiv> full_path H (root_dir (file_system st)) target"
  defines "r \<equiv> cd H (a # rest) st"
  shows "(isdir H fp \<and> chdir_error H fp = None \<longrightarrow>
            fst r = None \<and> current_dir (snd r) = target \<and> stdout (snd r) = stdout st)
       \<and> (\<not> isdir H fp \<longrightarrow>
            fst r = None \<and> current_dir (snd r) = current_dir st
            \<and> stdout (snd r) = stdout st @ [Directory_not_found])
       \<and> (\<forall>e. isdir H fp \<and> chdir_error H fp = Some e \<longrightarrow>
            fst r = Some (OSError e) \<and> snd r = st)"
  unfolding r_def fp_def target_def
  by (simp add: cd_def change_dir_def Let_def print_def)

theorem cd_changes_directory_witness:
  "current_dir (snd (cd (example_host [''/srv/a''] [] []) [''a''] (initial_console ''/srv'')))
     = ''/a''
   \<and> stdout (snd (cd (example_host [''/srv/a''] [] []) [''a''] (initial_console ''/srv''))) = []
   \<and> current_dir (snd (cd (example_host [''/srv/a''] [] []) [''b''] (initial_console ''/srv'')))
     = ''/''
   \<and> stdout (snd (cd (example_host [''/srv/a''] [] []) [''b''] (initial_console ''/srv'')))
     = [Directory_not_found]
   \<and> cd (example_host [''/srv/a''] [''/srv/a''] []) [''a''] (initial_console ''/srv'')
     = (Some (OSError ''Permission denied''), initial_console ''/srv'')"
proof -
  let ?st = "initial_console ''/srv''"
  note defs = initial_console_def full_path_def posixpath_join_def lstrip_slash_def
    example_host_def
  have 1: "isdir (example_host [''/srv/a''] [] []) ''/srv/a''
           \<and> chdir_error (example_host [''/srv/a''] [] []) ''/srv/a'' = None"
    by (simp add: example_host_def)
  have 2: "\<not> isdir (example_host [''/srv/a''] [] []) ''/srv/b''"
    by (simp add: example_host_def)
  have 3: "isdir (example_host [''/srv/a''] [''/srv/a''] []) ''/srv/a''
           \<and> chdir_error (example_host [''/srv/a''] [''/srv/a''] []) ''/srv/a''
               = Some ''Permission denied''"
    by (simp add: example_host_def)
  have w1: "current_dir (snd (cd (example_host [''/srv/a''] [] []) [''a''] ?st)) = ''/a''
            \<and> stdout (snd (cd (example_host [''/srv/a''] [] []) [''a''] ?st)) = []"
    using cd_changes_directory [of "example_host [''/srv/a''] [] []" ?st "''a''" "[]"] 1
    by (simp add: defs)
  have w2: "current_dir (snd (cd (example_host [''/srv/a''] [] []) [''b''] ?st)) = ''/''
            \<and> stdout (snd (cd (example_host [''/srv/a''] [] []) [''b''] ?st))
                = [Directory_not_found]"
    using cd_changes_directory [of "example_host [''/srv/a''] [] []" ?st "''b''" "[]"] 2
    by (simp add: defs)
  have w3: "cd (example_host [''/srv/a''] [''/srv/a''] []) [''a''] ?st
            = (Some (OSError ''Permission denied''), ?st)"
    using cd_changes_directory [of "example_host [''/srv/a''] [''/srv/a''] []" ?st "''a''" "[]"] 3
    by (simp add: defs prod_eq_iff)
  from w1 w2 w3 show ?thesis by simp
qed

subsection \<open>Facts about \<^verbatim>\<open>cksum\<close>\<close>

lemma cksum_loop_unbound:
  "content \<noteq> [] \<Longrightarrow> cksum_loop None crc content = Inl (NameError ''crc32_table'')"
  by (cases content) simp_all

text \<open>On every readable file that is not empty the handler raises and prints nothing.\<close>

lemma cksum_never_prints:
  assumes "read_bytes H (os_path_join H (current_dir st) a) = Inr content" and "content \<noteq> []"
  shows "cksum H (a # rest) st = (Some (NameError ''crc32_table''), st)"
  using assms by (simp add: cksum_def crc32_table_def cksum_loop_unbound)

subsection \<open>Claim C3\<close>

text \<open>
  C3: for every readable file, \<^verbatim>\<open>cksum\<close> computes a CRC-32 over the bytes of the file and
  prints it with the size and the name. The loop reads the table \<^verbatim>\<open>crc32_table\<close> at the
  first byte, and the name is bound nowhere: on a file of one byte the handler raises
  \<^verbatim>\<open>NameError\<close> and the dispatcher prints its error line; no checksum line appears.
\<close>

theorem cksum_raises_name_error:
  "cksum (example_host [] [] [(''/f'', ''a'')]) [''f''] (initial_console ''/srv'')
     = (Some (NameError ''crc32_table''), initial_console ''/srv'')
   \<and> execute_command (example_host [] [] [(''/f'', ''a'')]) 990 (initial_console ''/srv'')
        ''cksum f''
     = Some (None, print (Execution_error ''cksum f'' (NameError ''crc32_table''))
               (initial_console ''/srv''))"
proof -
  let ?H = "example_host [] [] [(''/f'', ''a'')]"
  have a: "cksum ?H [''f''] (initial_console ''/srv'')
           = (Some (NameError ''crc32_table''), initial_console ''/srv'')"
    by (simp add: cksum_def example_host_def initial_console_def posixpath_join_def
        crc32_table_def)
  have s: "split ''cksum f'' = [''cksum'', ''f'']"
    by (simp add: split_def is_space_def)
  have l: "lower ''cksum'' = ''cksum''"
    by (simp add: lower_def lower_char_def is_upper_def)
  have c: "commands ?H ''cksum'' = Some (returning (cksum ?H))"
    by (simp add: commands_def command_names_def)
  have n: "aliases (initial_console ''/srv'') ''cksum'' = None"
    by (simp add: initial_console_def)
  have f: "handler_frames ?H ''cksum'' = 6" "logging_frames ?H = 8"
    by (simp_all add: example_host_def)
  have b: "execute_command ?H 990 (initial_console ''/srv'') ''cksum f''
           = Some (None, print (Execution_error ''cksum f'' (NameError ''crc32_table''))
                     (initial_console ''/srv''))"
    by (subst execute_command.simps) (simp add: s l c n f returning_def a report_def)
  from a b show ?thesis by simp
qed

subsection \<open>Facts about the command tables\<close>

lemma help_and_man_keys_agree: "help_text_keys = man_pages_keys"
  by (simp add: help_text_keys_def man_pages_keys_def)

lemma help_keys_registered: "set help_text_keys \<subseteq> set command_names"
  by (simp add: help_text_keys_def command_names_def)

lemma registered_without_help:
  "filter (\<lambda>c. c \<notin> set help_text_keys) command_names = [''export'', ''help'']"
  by (simp add: help_text_keys_def command_names_def)

subsection \<open>Claim C7\<close>

text \<open>
  C7: every command name of the registry has an entry in the help table and an entry in the
  table of manual pages. The two tables have the same keys, all of them registered, but
  the registered names \<^verbatim>\<open>export\<close> and \<^verbatim>\<open>help\<close> are in neither.
\<close>

theorem registry_names_without_entries:
  "''export'' \<in> set command_names \<and> ''help'' \<in> set command_names
   \<and> ''export'' \<notin> set help_text_keys \<and> ''help'' \<notin> set help_text_keys
   \<and> ''export'' \<notin> set man_pages_keys \<and> ''help'' \<notin> set man_pages_keys"
proof -
  have a: "''export'' \<in> set command_names \<and> ''help'' \<in> set command_names"
    by (simp add: command_names_def)
  have b: "''export'' \<notin> set help_text_keys \<and> ''help'' \<notin> set help_text_keys"
    by (simp add: help_text_keys_def)
  from a b show ?thesis by (simp add: help_and_man_keys_agree [symmetric])
qed

subsection \<open>Facts about \<^verbatim>\<open>uniq\<close>\<close>

lemma first_index_append_notin:
  "x \<notin> set p \<Longrightarrow> first_index (p @ q) x = length p + first_index q x"
  unfolding first_index_def by (induction p) auto

lemma first_index_append_in:
  "x \<in> set p \<Longrightarrow> first_index (p @ q) x = first_index p x"
  unfolding first_index_def by (induction p) auto

lemma first_index_less: "x \<in> set p \<Longrightarrow> first_index p x < length p"
  unfolding first_index_def
  by (induction p) auto

lemma first_index_Cons_same: "first_index (x # q) x = 0"
  by (simp add: first_index_def)

lemma uniq_loop_kept: "uniq_loop ls u out = out @ map strip (kept u ls)"
  by (induction ls arbitrary: u out) simp_all

lemma kept_set: "set (kept u ls) = set ls - set u"
  by (induction ls arbitrary: u) auto

lemma kept_distinct: "distinct (kept u ls)"
  by (induction ls arbitrary: u) (simp_all add: kept_set)

lemma kept_length: "length (kept u ls) \<le> length ls"
proof (induction ls arbitrary: u)
  case Nil
  show ?case by simp
next
  case (Cons l ls)
  show ?case using Cons [of u] Cons [of "u @ [l]"] by simp
qed

lemma kept_order:
  "set u = set p \<Longrightarrow>
   sorted_wrt (\<lambda>a b. first_index (p @ ls) a < first_index (p @ ls) b) (kept u ls)"
proof (induction ls arbitrary: u p)
  case Nil
  show ?case by simp
next
  case (Cons l ls)
  show ?case
  proof (cases "l \<in> set u")
    case True
    have "set u = set (p @ [l])" using True Cons.prems by auto
    from Cons.IH [OF this] True show ?thesis by simp
  next
    case False
    have s: "set (u @ [l]) = set (p @ [l])" using Cons.prems by simp
    have rest: "sorted_wrt (\<lambda>a b. first_index (p @ l # ls) a < first_index (p @ l # ls) b)
                  (kept (u @ [l]) ls)"
      using Cons.IH [OF s] by simp
    have lp: "l \<notin> set p" using False Cons.prems by simp
    have fl: "first_index (p @ l # ls) l = length p"
      using first_index_append_notin [OF lp, of "l # ls"] by (simp add: first_index_Cons_same)
    have "first_index (p @ l # ls) l < first_index (p @ l # ls) b"
      if "b \<in> set (kept (u @ [l]) ls)" for b
    proof -
      from that have "b \<noteq> l \<and> b \<notin> set u" by (simp add: kept_set)
      then have b: "b \<notin> set (p @ [l])" using Cons.prems by simp
      have "first_index ((p @ [l]) @ ls) b = length (p @ [l]) + first_index ls b"
        by (rule first_index_append_notin [OF b])
      then show ?thesis using fl by simp
    qed
    with rest False show ?thesis by simp
  qed
qed

text \<open>What the handler prints for a file it can read: one line for each distinct line as
  read (terminator and surrounding whitespace included), namely that line stripped, in the
  order in which these lines occur first, and no more lines than the file has.\<close>

lemma uniq_lines_first_occurrences:
  "\<exists>ks. uniq_lines ls = map strip ks \<and> distinct ks \<and> set ks = set ls
        \<and> sorted_wrt (\<lambda>a b. first_index ls a < first_index ls b) ks
        \<and> length (uniq_lines ls) \<le> length ls"
proof -
  have 1: "uniq_lines ls = map strip (kept [] ls)"
    by (simp add: uniq_lines_def uniq_loop_kept)
  have 2: "sorted_wrt (\<lambda>a b. first_index ls a < first_index ls b) (kept [] ls)"
    using kept_order [of "[]" "[]" ls] by simp
  have 3: "length (uniq_lines ls) \<le> length ls"
    using kept_length [of "[]" ls] by (simp add: 1)
  show ?thesis
    using 1 2 3 kept_distinct [of "[]" ls] kept_set [of "[]" ls] by auto
qed

lemma uniq_first_occurrences:
  assumes "read_text H (os_path_join H (current_dir st) a) = Inr content"
  shows "\<exists>ks. uniq H (a # rest) st = (None, print_all (map Text (map strip ks)) st)
              \<and> distinct ks \<and> set ks = set (readlines content)
              \<and> sorted_wrt (\<lambda>x y. first_index (readlines content) x
                                    < first_index (readlines content) y) ks
              \<and> length ks \<le> length (readlines content)"
proof -
  obtain ks where ks: "uniq_lines (readlines content) = map strip ks" "distinct ks"
      "set ks = set (readlines content)"
      "sorted_wrt (\<lambda>x y. first_index (readlines content) x
                            < first_index (readlines content) y) ks"
      "length (uniq_lines (readlines content)) \<le> length (readlines content)"
    using uniq_lines_first_occurrences [of "readlines content"] by blast
  have "uniq H (a # rest) st = (None, print_all (map Text (map strip ks)) st)"
    using assms ks(1) by (simp add: uniq_def)
  moreover have "length ks \<le> length (readlines content)"
    using ks(5) by (simp add: ks(1))
  ultimately show ?thesis using ks(2,3,4) by blast
qed

lemma twice_a_lines: "readlines twice_a = [[CHR ''a'', CHR 0x0A], ''a'']"
  by (simp add: readlines_def twice_a_def)

subsection \<open>Claim C5\<close>

text \<open>
  C5: for every list of input lines, \<^verbatim>\<open>uniq\<close> outputs each distinct line of the input
  exactly once, in the order of first occurrence, and no more lines than it read. The loop
  compares the lines as \<^verbatim>\<open>readlines\<close> returns them, terminator included, and prints them
  stripped. On the file of the two lines \<^verbatim>\<open>a\<close> whose second line has no terminator the
  handler, and the dispatcher on the line \<^verbatim>\<open>uniq f\<close>, print the line \<^verbatim>\<open>a\<close> twice, and
  raise nothing.
\<close>

theorem uniq_prints_a_line_twice:
  "read_text (example_host [] [] [(''/f'', twice_a)]) ''/f'' = Inr twice_a
   \<and> map strip (readlines twice_a) = [''a'', ''a'']
   \<and> uniq (example_host [] [] [(''/f'', twice_a)]) [''f''] (initial_console ''/srv'')
       = (None, print_all [Text ''a'', Text ''a''] (initial_console ''/srv''))
   \<and> execute_command (example_host [] [] [(''/f'', twice_a)]) 990 (initial_console ''/srv'')
        ''uniq f''
       = Some (None, print_all [Text ''a'', Text ''a''] (initial_console ''/srv''))"
proof -
  let ?H = "example_host [] [] [(''/f'', twice_a)]"
  have r: "read_text ?H ''/f'' = Inr twice_a"
    by (simp add: example_host_def)
  have m: "map strip (readlines twice_a) = [''a'', ''a'']"
    by (simp add: twice_a_lines strip_def is_space_def)
  have p: "os_path_join ?H (current_dir (initial_console ''/srv'')) ''f'' = ''/f''"
    by (simp add: example_host_def initial_console_def posixpath_join_def)
  have u: "uniq_lines (readlines twice_a) = [''a'', ''a'']"
    by (simp add: twice_a_lines uniq_lines_def strip_def is_space_def)
  have a: "uniq ?H [''f''] (initial_console ''/srv'')
           = (None, print_all [Text ''a'', Text ''a''] (initial_console ''/srv''))"
    by (simp add: uniq_def p r u)
  have s: "split ''uniq f'' = [''uniq'', ''f'']"
    by (simp add: split_def is_space_def)
  have l: "lower ''uniq'' = ''uniq''"
    by (simp add: lower_def lower_char_def is_upper_def)
  have c: "commands ?H ''uniq'' = Some (returning (uniq ?H))"
    by (simp add: commands_def command_names_def)
  have n: "aliases (initial_console ''/srv'') ''uniq'' = None"
    by (simp add: initial_console_def)
  have f: "handler_frames ?H ''uniq'' = 6"
    by (simp add: example_host_def)
  have b: "execute_command ?H 990 (initial_console ''/srv'') ''uniq f''
           = Some (None, print_all [Text ''a'', Text ''a''] (initial_console ''/srv''))"
    by (subst execute_command.simps) (simp add: s l c n f returning_def a)
  from r m a b show ?thesis by simp
qed

subsection \<open>Facts about \<^verbatim>\<open>comm\<close>\<close>










subsection \<open>Claim C6\<close>



subsection \<open>Facts about the dispatcher\<close>

lemma print_print_all: "print m (print_all ms st) = print_all (ms @ [m]) st"
  by (simp add: print_def print_all_def)

lemma execute_command_no_alias:
  assumes "alias_next (aliases st) command = None"
  shows "execute_command H k st command = dispatch H k st command"
  using assms
  by (subst execute_command.simps)
     (auto simp: alias_next_def dispatch_def split: list.splits option.splits)

lemma execute_command_alias_0:
  assumes "alias_next (aliases st) command = Some c"
  shows "execute_command H 0 st command = Some (report H 0 c RecursionError st)"
  using assms
  by (subst execute_command.simps)
     (auto simp: alias_next_def split: list.splits option.splits)

lemma execute_command_alias_Suc:
  assumes "alias_next (aliases st) command = Some c"
  shows "execute_command H (Suc k) st command
         = (case execute_command H k st c of
              None \<Rightarrow> None
            | Some (None, st') \<Rightarrow> Some (None, st')
            | Some (Some e, st') \<Rightarrow> Some (report H (Suc k) c e st'))"
  using assms
  by (subst execute_command.simps)
     (auto simp: alias_next_def split: list.splits option.splits)

text \<open>With the frames that \<^verbatim>\<open>logging.error\<close> needs, no exception leaves the dispatch.\<close>

lemma dispatch_quiet:
  assumes "logging_frames H \<le> k"
  shows "dispatch H k st c = None \<or> (\<exists>st'. dispatch H k st c = Some (None, st'))"
proof (cases "split c")
  case Nil
  then show ?thesis by (simp add: dispatch_def)
next
  case (Cons p args)
  show ?thesis
  proof (cases "commands H (lower p)")
    case None
    with Cons show ?thesis by (simp add: dispatch_def)
  next
    case (Some h)
    show ?thesis
    proof (cases "k < handler_frames H (lower p)")
      case True
      with Cons Some assms show ?thesis by (simp add: dispatch_def report_def)
    next
      case False
      show ?thesis
      proof (cases "h k args st")
        case None
        with Cons Some False show ?thesis by (simp add: dispatch_def)
      next
        case r: (Some res)
        obtain e st' where res: "res = (e, st')" by (cases res)
        show ?thesis
          using Cons Some False r res assms
          by (cases e) (simp_all add: dispatch_def report_def)
      qed
    qed
  qed
qed

lemma execute_command_expand:
  "expand (aliases st) n command = Some c \<Longrightarrow> alias_next (aliases st) c = None \<Longrightarrow>
   n + logging_frames H \<le> k \<Longrightarrow>
   execute_command H k st command = dispatch H (k - n) st c"
proof (induction n arbitrary: command k)
  case 0
  then show ?case by (simp add: execute_command_no_alias)
next
  case (Suc n)
  from Suc.prems(1) obtain c1 where c1: "alias_next (aliases st) command = Some c1"
    and e: "expand (aliases st) n c1 = Some c"
    by (auto split: option.splits)
  from Suc.prems(3) obtain k' where k: "k = Suc k'" and le: "n + logging_frames H \<le> k'"
    by (cases k) simp_all
  have ih: "execute_command H k' st c1 = dispatch H (k' - n) st c"
    by (rule Suc.IH [OF e Suc.prems(2) le])
  have q: "dispatch H (k' - n) st c = None
           \<or> (\<exists>st'. dispatch H (k' - n) st c = Some (None, st'))"
    by (rule dispatch_quiet) (use le in simp)
  from q show ?case
  proof
    assume "dispatch H (k' - n) st c = None"
    then show ?thesis using execute_command_alias_Suc [OF c1, of H k'] ih k by simp
  next
    assume "\<exists>st'. dispatch H (k' - n) st c = Some (None, st')"
    then obtain st' where "dispatch H (k' - n) st c = Some (None, st')" by blast
    then show ?thesis using execute_command_alias_Suc [OF c1, of H k'] ih k by simp
  qed
qed

text \<open>A chain longer than the frames left: the deepest call raises, each frame that lacks
  the frames for \<^verbatim>\<open>logging.error\<close> prints its line and raises again, and the first frame
  that has them prints the last line.\<close>

lemma execute_command_too_deep:
  "expand (aliases st) (Suc k) command = Some c \<Longrightarrow>
   \<exists>lines. execute_command H k st command
              = Some (if k < logging_frames H then Some RecursionError else None,
                      print_all lines st)
           \<and> length lines = Suc (min k (logging_frames H))
           \<and> (\<forall>l \<in> set lines. recursion_line l)"
proof (induction k arbitrary: command)
  case 0
  then obtain c1 where c1: "alias_next (aliases st) command = Some c1"
    by (auto split: option.splits)
  have "execute_command H 0 st command
        = Some (if 0 < logging_frames H then Some RecursionError else None,
                print_all [Execution_error c1 RecursionError] st)"
    using execute_command_alias_0 [OF c1, of H] by (simp add: report_def print_def print_all_def)
  then show ?case
    by (intro exI [of _ "[Execution_error c1 RecursionError]"]) (simp add: recursion_line_def)
next
  case (Suc k)
  from Suc.prems obtain c1 where c1: "alias_next (aliases st) command = Some c1"
    and e: "expand (aliases st) (Suc k) c1 = Some c"
    by (auto split: option.splits)
  from Suc.IH [OF e] obtain lines
    where r: "execute_command H k st c1
              = Some (if k < logging_frames H then Some RecursionError else None,
                      print_all lines st)"
      and l: "length lines = Suc (min k (logging_frames H))"
      and a: "\<forall>l \<in> set lines. recursion_line l"
    by blast
  show ?case
  proof (cases "k < logging_frames H")
    case True
    have "execute_command H (Suc k) st command
          = Some (if Suc k < logging_frames H then Some RecursionError else None,
                  print_all (lines @ [Execution_error c1 RecursionError]) st)"
      using execute_command_alias_Suc [OF c1, of H k] r True
      by (simp add: report_def print_print_all)
    moreover have "length (lines @ [Execution_error c1 RecursionError])
                   = Suc (min (Suc k) (logging_frames H))"
      using l True by simp
    moreover have "\<forall>l \<in> set (lines @ [Execution_error c1 RecursionError]). recursion_line l"
      using a by (simp add: recursion_line_def)
    ultimately show ?thesis by blast
  next
    case False
    have "execute_command H (Suc k) st command
          = Some (if Suc k < logging_frames H then Some RecursionError else None,
                  print_all lines st)"
      using execute_command_alias_Suc [OF c1, of H k] r False by simp
    moreover have "length lines = Suc (min (Suc k) (logging_frames H))"
      using l False by simp
    ultimately show ?thesis using a by blast
  qed
qed

text \<open>The call fails to return only when the handler it reaches does.\<close>

lemma execute_command_None_chain:
  "execute_command H k st command = None \<Longrightarrow>
   \<exists>n c. n \<le> k \<and> expand (aliases st) n command = Some c
         \<and> alias_next (aliases st) c = None \<and> dispatch H (k - n) st c = None"
proof (induction k arbitrary: command)
  case 0
  show ?case
  proof (cases "alias_next (aliases st) command")
    case None
    then have "dispatch H 0 st command = None"
      using "0.prems" by (simp add: execute_command_no_alias)
    with None show ?thesis
      by (intro exI [of _ 0] exI [of _ command]) simp
  next
    case (Some c1)
    with "0.prems" show ?thesis by (simp add: execute_command_alias_0)
  qed
next
  case (Suc k)
  show ?case
  proof (cases "alias_next (aliases st) command")
    case None
    then have "dispatch H (Suc k) st command = None"
      using Suc.prems by (simp add: execute_command_no_alias)
    with None show ?thesis
      by (intro exI [of _ 0] exI [of _ command]) simp
  next
    case (Some c1)
    have "execute_command H k st c1 = None"
      using Suc.prems execute_command_alias_Suc [OF Some, of H k]
      by (auto split: option.splits prod.splits)
    from Suc.IH [OF this] obtain n c where n: "n \<le> k" "expand (aliases st) n c1 = Some c"
        "alias_next (aliases st) c = None" "dispatch H (k - n) st c = None"
      by blast
    then have "Suc n \<le> Suc k \<and> expand (aliases st) (Suc n) command = Some c
               \<and> alias_next (aliases st) c = None \<and> dispatch H (Suc k - Suc n) st c = None"
      using Some by simp
    then show ?thesis by blast
  qed
qed

lemma execute_command_chain_None:
  "n \<le> k \<Longrightarrow> expand (aliases st) n command = Some c \<Longrightarrow>
   alias_next (aliases st) c = None \<Longrightarrow> dispatch H (k - n) st c = None \<Longrightarrow>
   execute_command H k st command = None"
proof (induction n arbitrary: command k)
  case 0
  then show ?case by (simp add: execute_command_no_alias)
next
  case (Suc n)
  from Suc.prems(2) obtain c1 where c1: "alias_next (aliases st) command = Some c1"
    and e: "expand (aliases st) n c1 = Some c"
    by (auto split: option.splits)
  from Suc.prems(1) obtain k' where k: "k = Suc k'" and le: "n \<le> k'"
    by (cases k) simp_all
  have "execute_command H k' st c1 = None"
    using Suc.IH [OF le e Suc.prems(3)] Suc.prems(4) k by simp
  then show ?case using execute_command_alias_Suc [OF c1, of H k'] k by simp
qed

text \<open>On a host whose handlers all return, so does the dispatcher, whatever the alias
  table, the line and the frames left.\<close>

lemma awk_loop_returns:
  "\<forall>text line st. py_eval H text line st \<noteq> None \<Longrightarrow> awk_loop H script ls st \<noteq> None"
proof (induction ls arbitrary: st)
  case Nil
  show ?case by simp
next
  case (Cons line ls)
  from Cons.prems obtain r s where p: "py_eval H script (Some line) st = Some (r, s)"
    by (metis not_Some_eq surj_pair)
  show ?case
  proof (cases r)
    case (Inl e)
    with p show ?thesis by simp
  next
    case (Inr v)
    obtain shown truth where v: "v = (shown, truth)" by (cases v)
    show ?thesis
      using p Inr v Cons.IH [OF Cons.prems, of "if truth then print (Text (strip line)) s else s"]
      by simp
  qed
qed

lemma commands_return:
  assumes hr: "handlers_return H" and c: "commands H name = Some h"
  shows "h k args st \<noteq> None"
proof -
  from hr have ev: "\<forall>text line st. py_eval H text line st \<noteq> None"
    and ot: "\<forall>name k args st. other_command H name k args st \<noteq> None"
    by (simp_all add: handlers_return_def)
  from c consider (ret) f where "h = returning f"
    | (ts) "h = (\<lambda>k. returning (tsort H k) k)"
    | (ex) "h = (\<lambda>k. expr H)" | (bc) "h = (\<lambda>k. bc H)" | (aw) "h = (\<lambda>k. awk H)"
    | (ot) "h = other H name"
    unfolding commands_def by (auto split: if_splits)
  then show ?thesis
  proof cases
    case ret
    then show ?thesis by (simp add: returning_def)
  next
    case ts
    then show ?thesis by (simp add: returning_def)
  next
    case ex
    obtain r where "py_eval H (join_sp args) None st = Some r"
      using ev by (metis not_Some_eq)
    with ex show ?thesis
      by (cases r) (auto simp: expr_def split: sum.splits prod.splits)
  next
    case bc
    obtain r where "py_eval H (join_sp args) None st = Some r"
      using ev by (metis not_Some_eq)
    with bc show ?thesis
      by (cases r) (auto simp: bc_def split: sum.splits prod.splits)
  next
    case aw
    show ?thesis
    proof (cases "2 \<le> length args")
      case False
      with aw show ?thesis by (simp add: awk_def)
    next
      case True
      show ?thesis
      proof (cases "read_text H (os_path_join H (current_dir st) (args ! 1))")
        case (Inl err)
        with aw True show ?thesis by (cases err) (simp_all add: awk_def)
      next
        case (Inr content)
        have "awk_loop H (args ! 0) (readlines content) st \<noteq> None"
          by (rule awk_loop_returns [OF ev])
        then obtain r where "awk_loop H (args ! 0) (readlines content) st = Some r"
          by blast
        with aw True Inr show ?thesis
          by (cases r) (auto simp: awk_def split: option.splits)
      qed
    qed
  next
    case ot
    obtain r where "other_command H name k args st = Some r"
      using ot \<open>\<forall>name k args st. other_command H name k args st \<noteq> None\<close>
      by (metis not_Some_eq)
    with ot show ?thesis by (simp add: other_def)
  qed
qed

lemma dispatch_returns:
  assumes "handlers_return H"
  shows "dispatch H k st command \<noteq> None"
proof (cases "split command")
  case Nil
  then show ?thesis by (simp add: dispatch_def)
next
  case (Cons p args)
  show ?thesis
  proof (cases "commands H (lower p)")
    case None
    with Cons show ?thesis by (simp add: dispatch_def)
  next
    case (Some h)
    from commands_return [OF assms Some, of k args st]
    obtain r where "h k args st = Some r" by blast
    with Cons Some show ?thesis
      by (cases r) (auto simp: dispatch_def split: option.splits)
  qed
qed

lemma execute_command_returns:
  assumes "handlers_return H"
  shows "execute_command H k st command \<noteq> None"
  using execute_command_None_chain [of H k st command] dispatch_returns [OF assms]
  by blast

lemma example_host_returns: "handlers_return (example_host ds lk fs)"
  by (simp add: handlers_return_def example_host_def)

text \<open>Chains: the names expanded are alias names, and a chain without a repeated name
  in a finite table ends within as many expansions as the table has names.\<close>

lemma chain_in_dom: "set (chain A n command) \<subseteq> dom A"
proof (induction n arbitrary: command)
  case 0
  show ?case by simp
next
  case (Suc n)
  show ?case
  proof (cases "split command")
    case Nil
    then show ?thesis by simp
  next
    case (Cons p args)
    show ?thesis
    proof (cases "A (lower p)")
      case None
      with Cons show ?thesis by simp
    next
      case (Some e)
      with Cons Suc [of "e @ '' '' @ join_sp args"] show ?thesis by auto
    qed
  qed
qed

lemma chain_full_or_ends:
  "length (chain A n command) = n
   \<or> (\<exists>m < n. \<exists>c. expand A m command = Some c \<and> alias_next A c = None)"
proof (induction n arbitrary: command)
  case 0
  show ?case by simp
next
  case (Suc n)
  show ?case
  proof (cases "alias_next A command")
    case None
    have "expand A 0 command = Some command" by simp
    with None show ?thesis by blast
  next
    case (Some c)
    then obtain p args e where s: "split command = p # args" and a: "A (lower p) = Some e"
      and c: "c = e @ '' '' @ join_sp args"
      by (auto simp: alias_next_def split: list.splits)
    from Suc [of c] show ?thesis
    proof
      assume "length (chain A n c) = n"
      then show ?thesis using s a c by simp
    next
      assume "\<exists>m < n. \<exists>c'. expand A m c = Some c' \<and> alias_next A c' = None"
      then obtain m c' where m: "m < n" "expand A m c = Some c'" "alias_next A c' = None"
        by blast
      then have "Suc m < Suc n \<and> expand A (Suc m) command = Some c' \<and> alias_next A c' = None"
        using Some by simp
      then show ?thesis by blast
    qed
  qed
qed

lemma acyclic_chain_ends:
  assumes fin: "finite (dom A)" and d: "distinct (chain A (Suc (card (dom A))) command)"
  shows "\<exists>n \<le> card (dom A). \<exists>c. expand A n command = Some c \<and> alias_next A c = None"
proof -
  let ?k = "Suc (card (dom A))"
  have "length (chain A ?k command) \<noteq> ?k"
  proof
    assume l: "length (chain A ?k command) = ?k"
    have "card (set (chain A ?k command)) \<le> card (dom A)"
      using fin chain_in_dom by (rule card_mono)
    moreover have "card (set (chain A ?k command)) = length (chain A ?k command)"
      using d by (rule distinct_card)
    ultimately show False using l by linarith
  qed
  with chain_full_or_ends [of A ?k command]
  obtain m c where "m < ?k" "expand A m command = Some c" "alias_next A c = None"
    by blast
  then show ?thesis by (metis less_Suc_eq_le)
qed

lemma self_alias_next:
  "alias_next self_alias ''a '' = Some ''a ''"
  "alias_next self_alias ''a'' = Some ''a ''"
  by (simp_all add: self_alias_def alias_next_def split_def is_space_def lower_def
      lower_char_def is_upper_def)

lemma self_alias_expand: "expand self_alias n ''a '' = Some ''a ''"
  by (induction n) (simp_all add: self_alias_next)

text \<open>The alias \<^verbatim>\<open>a\<close> for \<^verbatim>\<open>a\<close>, with \<open>k\<close> frames left: the call at the bottom raises, and
  the frames above it print the same line until one has the frames for \<^verbatim>\<open>logging.error\<close>.\<close>

lemma self_alias_run:
  assumes "aliases st = self_alias"
  shows "execute_command H k st ''a ''
         = Some (if k < logging_frames H then Some RecursionError else None,
                 print_all (replicate (Suc (min k (logging_frames H)))
                              (Execution_error ''a '' RecursionError)) st)"
proof (induction k)
  case 0
  have a: "alias_next (aliases st) ''a '' = Some ''a ''"
    by (simp add: assms self_alias_next)
  show ?case
    using execute_command_alias_0 [OF a, of H] by (simp add: report_def print_def print_all_def)
next
  case (Suc k)
  have a: "alias_next (aliases st) ''a '' = Some ''a ''"
    by (simp add: assms self_alias_next)
  show ?case
  proof (cases "k < logging_frames H")
    case True
    then have m: "min k (logging_frames H) = k" "min (Suc k) (logging_frames H) = Suc k"
      by simp_all
    show ?thesis
      using execute_command_alias_Suc [OF a, of H k] Suc True
      by (simp add: m report_def print_print_all replicate_append_same)
  next
    case False
    then have m: "min k (logging_frames H) = logging_frames H"
        "min (Suc k) (logging_frames H) = logging_frames H"
      by simp_all
    show ?thesis
      using execute_command_alias_Suc [OF a, of H k] Suc False by (simp add: m)
  qed
qed

subsection \<open>Claim C2\<close>

text \<open>
  C2, as the specification states it: \<^verbatim>\<open>execute_command\<close> terminates on an acyclic chain
  within the configured depth limit, and on a cyclic chain reports an alias-cycle error. The
  source recurses on the expanded line with no counter and no set of visited names, and
  has no message for a cycle. With \<^verbatim>\<open>a\<close> an alias for \<^verbatim>\<open>a\<close> and the 990 frames that the
  interpreter leaves, the line \<^verbatim>\<open>a\<close> is expanded until the interpreter refuses the call;
  the \<^verbatim>\<open>RecursionError\<close> is caught by the \<^verbatim>\<open>except Exception\<close> of the deepest frame, and it
  and the eight frames above it each print the line for a failed command, the same line
  as for any other exception, before the call returns.
\<close>

theorem self_alias_recursion_error:
  "recursion_limit (example_host [] [] []) = 990
   \<and> execute_command (example_host [] [] []) 990
        ((initial_console ''/srv'')\<lparr>aliases := self_alias\<rparr>) ''a''
     = Some (None, print_all (replicate 9 (Execution_error ''a '' RecursionError))
                     ((initial_console ''/srv'')\<lparr>aliases := self_alias\<rparr>))"
proof -
  let ?H = "example_host [] [] []"
  let ?st = "(initial_console ''/srv'')\<lparr>aliases := self_alias\<rparr>"
  have a: "alias_next (aliases ?st) ''a'' = Some ''a ''"
    by (simp add: self_alias_next)
  have f: "logging_frames ?H = 8" "recursion_limit ?H = 990"
    by (simp_all add: example_host_def)
  have r: "execute_command ?H 989 ?st ''a ''
           = Some (None, print_all (replicate 9 (Execution_error ''a '' RecursionError)) ?st)"
    using self_alias_run [of ?st ?H 989] by (simp add: f)
  have "execute_command ?H (Suc 989) ?st ''a''
        = Some (None, print_all (replicate 9 (Execution_error ''a '' RecursionError)) ?st)"
    using execute_command_alias_Suc [OF a, of ?H 989] r by simp
  then show ?thesis using f by simp
qed

text \<open>
  C2 as amended: for every alias table, every input line and every number \<open>k\<close> of frames
  that the interpreter leaves (there is no configured depth limit):
  \<^item> when after \<open>n\<close> expansions the first token is no alias, and \<open>k\<close> frames are enough
    for the \<open>n\<close> calls and for \<^verbatim>\<open>logging.error\<close>, \<^verbatim>\<open>execute_command\<close> does what the
    dispatch of the expanded line does with the frames left (registry lookup, handler
    call, error line);
  \<^item> this is the case after at most as many expansions as the table has names whenever
    the table is finite and no alias name is expanded twice (an acyclic chain);
  \<^item> when the chain is longer than the frames left, as every cyclic chain is,
    \<^verbatim>\<open>execute_command\<close> returns, and what it has printed is only the line for a failed
    command with \<^verbatim>\<open>RecursionError\<close>: by the deepest frame and by each frame above it up to
    the first that has the frames for \<^verbatim>\<open>logging.error\<close>, and the \<^verbatim>\<open>RecursionError\<close> of
    \<^verbatim>\<open>logging.error\<close> leaves the call if the outermost frame lacks them too; no
    alias-cycle error exists;
  \<^item> \<^verbatim>\<open>execute_command\<close> fails to return exactly when the chain ends within the frames
    left and the handler that the expanded line names does not return.
\<close>

theorem execute_command_alias_chain:
  fixes H :: host and st :: console and command :: string and k :: nat
  defines "A \<equiv> aliases st" and "F \<equiv> logging_frames H"
  shows "(\<forall>n c. expand A n command = Some c \<and> alias_next A c = None \<and> n + F \<le> k
            \<longrightarrow> execute_command H k st command = dispatch H (k - n) st c)
       \<and> (finite (dom A) \<and> distinct (chain A (Suc (card (dom A))) command)
            \<longrightarrow> (\<exists>n c. n \<le> card (dom A) \<and> expand A n command = Some c
                       \<and> alias_next A c = None))
       \<and> (\<forall>c. expand A (Suc k) command = Some c
            \<longrightarrow> (\<exists>lines. execute_command H k st command
                            = Some (if k < F then Some RecursionError else None,
                                    print_all lines st)
                        \<and> length lines = Suc (min k F)
                        \<and> (\<forall>l \<in> set lines. recursion_line l)))
       \<and> ((execute_command H k st command = None)
            = (\<exists>n c. n \<le> k \<and> expand A n command = Some c \<and> alias_next A c = None
                     \<and> dispatch H (k - n) st c = None))"
proof -
  have a: "\<forall>n c. expand A n command = Some c \<and> alias_next A c = None \<and> n + F \<le> k
            \<longrightarrow> execute_command H k st command = dispatch H (k - n) st c"
    unfolding A_def F_def using execute_command_expand by blast
  have b: "finite (dom A) \<and> distinct (chain A (Suc (card (dom A))) command)
            \<longrightarrow> (\<exists>n c. n \<le> card (dom A) \<and> expand A n command = Some c
                       \<and> alias_next A c = None)"
    using acyclic_chain_ends [of A command] by blast
  have c: "\<forall>c. expand A (Suc k) command = Some c
            \<longrightarrow> (\<exists>lines. execute_command H k st command
                            = Some (if k < F then Some RecursionError else None,
                                    print_all lines st)
                        \<and> length lines = Suc (min k F)
                        \<and> (\<forall>l \<in> set lines. recursion_line l))"
    unfolding A_def F_def using execute_command_too_deep by blast
  have d: "(execute_command H k st command = None)
            = (\<exists>n c. n \<le> k \<and> expand A n command = Some c \<and> alias_next A c = None
                     \<and> dispatch H (k - n) st c = None)"
    unfolding A_def
    using execute_command_None_chain [of H k st command] execute_command_chain_None [of _ k st command _ H]
    by blast
  from a b c d show ?thesis by blast
qed

theorem execute_command_alias_chain_witness:
  "expand ll_alias 1 ''ll -a'' = Some ''ls -a'' \<and> alias_next ll_alias ''ls -a'' = None
   \<and> execute_command (example_host [] [] []) 990
        ((initial_console ''/srv'')\<lparr>aliases := ll_alias\<rparr>) ''ll -a''
       = Some (None, (initial_console ''/srv'')\<lparr>aliases := ll_alias\<rparr>)
   \<and> finite (dom ll_alias) \<and> distinct (chain ll_alias (Suc (card (dom ll_alias))) ''ll -a'')
   \<and> (\<exists>n c. n \<le> card (dom ll_alias) \<and> expand ll_alias n ''ll -a'' = Some c
              \<and> alias_next ll_alias c = None)
   \<and> expand self_alias 3 ''a'' = Some ''a ''
   \<and> (\<exists>lines. execute_command (example_host [] [] []) 2
                  ((initial_console ''/srv'')\<lparr>aliases := self_alias\<rparr>) ''a''
                = Some (Some RecursionError,
                        print_all lines ((initial_console ''/srv'')\<lparr>aliases := self_alias\<rparr>))
              \<and> length lines = 3)
   \<and> dispatch ((example_host [] [] [])\<lparr>other_command := \<lambda>name k args st. None\<rparr>) 990
        (initial_console ''/srv'') ''yes'' = None
   \<and> execute_command ((example_host [] [] [])\<lparr>other_command := \<lambda>name k args st. None\<rparr>) 990
        (initial_console ''/srv'') ''yes'' = None"
proof -
  let ?H = "example_host [] [] []"
  let ?N = "(example_host [] [] [])\<lparr>other_command := \<lambda>name k args st. None\<rparr>"
  let ?ll = "(initial_console ''/srv'')\<lparr>aliases := ll_alias\<rparr>"
  let ?self = "(initial_console ''/srv'')\<lparr>aliases := self_alias\<rparr>"
  let ?init = "initial_console ''/srv''"
  have sp: "split ''ll -a'' = [''ll'', ''-a'']" "split ''ls -a'' = [''ls'', ''-a'']"
      "split ''yes'' = [''yes'']"
    by (simp_all add: split_def is_space_def)
  have lo: "lower ''ll'' = ''ll''" "lower ''ls'' = ''ls''" "lower ''yes'' = ''yes''"
    by (simp_all add: lower_def lower_char_def is_upper_def)
  have fr: "logging_frames ?H = 8" "handler_frames ?H ''ls'' = 6" "handler_frames ?H ''yes'' = 6"
    by (simp_all add: example_host_def)
  have e: "expand ll_alias 1 ''ll -a'' = Some ''ls -a''"
    by (simp add: ll_alias_def alias_next_def sp lo)
  have n: "alias_next ll_alias ''ls -a'' = None"
    by (simp add: ll_alias_def alias_next_def sp lo)
  have f: "finite (dom ll_alias)" by (simp add: ll_alias_def)
  have d: "distinct (chain ll_alias (Suc (card (dom ll_alias))) ''ll -a'')"
    by (simp add: ll_alias_def sp lo)
  have cl: "commands ?H ''ls'' = Some (other ?H ''ls'')"
    by (simp add: commands_def command_names_def)
  have cy: "commands ?N ''yes'' = Some (other ?N ''yes'')"
    by (simp add: commands_def command_names_def)
  have ol: "other ?H ''ls'' 989 [''-a''] ?ll = Some (None, ?ll)"
    by (simp add: other_def example_host_def print_all_def)
  have oy: "other ?N ''yes'' 990 [] ?init = None"
    by (simp add: other_def)
  have r: "dispatch ?H 989 ?ll ''ls -a'' = Some (None, ?ll)"
    by (simp add: dispatch_def sp lo cl fr ol)
  have y: "dispatch ?N 990 ?init ''yes'' = None"
    by (simp add: dispatch_def sp lo cy fr oy)
  have ny: "alias_next (aliases ?init) ''yes'' = None"
    by (simp add: alias_next_def sp lo initial_console_def)
  have x3: "expand self_alias 3 ''a'' = Some ''a ''"
    by (simp add: numeral_3_eq_3 self_alias_next)
  note t1 = execute_command_alias_chain [of ?ll "''ll -a''" ?H 990]
  note t2 = execute_command_alias_chain [of ?self "''a''" ?H 2]
  note t3 = execute_command_alias_chain [of ?init "''yes''" ?N 990]
  have 1: "execute_command ?H 990 ?ll ''ll -a'' = Some (None, ?ll)"
  proof -
    have "expand (aliases ?ll) 1 ''ll -a'' = Some ''ls -a''
          \<and> alias_next (aliases ?ll) ''ls -a'' = None \<and> 1 + logging_frames ?H \<le> 990"
      using e n fr by simp
    with t1 have "execute_command ?H 990 ?ll ''ll -a'' = dispatch ?H (990 - 1) ?ll ''ls -a''"
      by blast
    with r show ?thesis by simp
  qed
  have 2: "\<exists>n c. n \<le> card (dom ll_alias) \<and> expand ll_alias n ''ll -a'' = Some c
                  \<and> alias_next ll_alias c = None"
    using t1 f d by simp
  have 3: "\<exists>lines. execute_command ?H 2 ?self ''a''
                     = Some (Some RecursionError, print_all lines ?self)
                   \<and> length lines = 3"
  proof -
    have "expand (aliases ?self) (Suc 2) ''a'' = Some ''a ''"
      using x3 by (simp add: numeral_3_eq_3)
    with t2 obtain lines where
      "execute_command ?H 2 ?self ''a''
         = Some (if 2 < logging_frames ?H then Some RecursionError else None,
                 print_all lines ?self)"
      "length lines = Suc (min 2 (logging_frames ?H))"
      by blast
    then have "execute_command ?H 2 ?self ''a''
                 = Some (Some RecursionError, print_all lines ?self)
               \<and> length lines = 3"
      using fr by simp
    then show ?thesis by blast
  qed
  have 4: "execute_command ?N 990 ?init ''yes'' = None"
  proof -
    have "0 \<le> (990::nat) \<and> expand (aliases ?init) 0 ''yes'' = Some ''yes''
          \<and> alias_next (aliases ?init) ''yes'' = None
          \<and> dispatch ?N (990 - 0) ?init ''yes'' = None"
      using ny y by simp
    with t3 show ?thesis by blast
  qed
  from e n 1 f d 2 x3 3 y 4 show ?thesis by blast
qed

subsection \<open>Facts about the alias table\<close>





























subsection \<open>Claim C9\<close>




subsection \<open>Facts about \<^verbatim>\<open>tsort\<close>\<close>

lemma finite_universe: "finite (universe H g)"
  by (simp add: universe_def)

lemma neighbours_in_universe: "set (neighbours H g u) \<subseteq> universe H g"
proof (cases "map_of g u")
  case None
  then show ?thesis by (simp add: neighbours_def)
next
  case (Some vs)
  then have "(u, vs) \<in> set g" by (rule map_of_SomeD)
  then have "u \<in> fst ` set g" by force
  then show ?thesis unfolding universe_def by blast
qed

lemma dfs_visited: "0 < k \<Longrightarrow> node \<in> fst s \<Longrightarrow> dfs H g k node s = Inr s"
  by (cases k) simp_all

lemma dfs_fresh:
  "0 < k \<Longrightarrow> node \<notin> fst s \<Longrightarrow>
   dfs H g k node s
   = (case for_each (dfs H g (k - 1)) (neighbours H g node) (insert node (fst s), snd s) of
        Inl e \<Rightarrow> Inl e
      | Inr s' \<Rightarrow> Inr (fst s', snd s' @ [node]))"
  by (cases k) simp_all

lemma post_refl: "pre H g xs s \<Longrightarrow> set xs \<subseteq> fst s \<Longrightarrow> post H g xs s s"
  by (auto simp: pre_def post_def)

lemma post_trans:
  assumes "post H g [x] s s1" and "post H g xs s1 s2"
  shows "post H g (x # xs) s s2"
  using assms unfolding post_def
  by (auto dest: prefix_order.trans)

lemma pre_step:
  assumes "pre H g (x # xs) s" and "post H g [x] s s1"
  shows "pre H g xs s1"
  using assms unfolding pre_def post_def by auto

lemma pre_head: "pre H g (x # xs) s \<Longrightarrow> pre H g [x] s"
  unfolding pre_def by auto

lemma card_universe_mono:
  "fst s \<subseteq> fst s1 \<Longrightarrow> card (universe H g - fst s1) \<le> card (universe H g - fst s)"
  by (rule card_mono) (auto simp: finite_universe)

text \<open>The loop with \<open>n\<close> frames left, when every call of \<^verbatim>\<open>dfs\<close> it makes meets its
  contract: a call returns when more frames are left than nodes are unvisited.\<close>

lemma for_each_dfs:
  assumes calls: "\<And>node t. card (universe H g - fst t) < n \<Longrightarrow> node \<in> universe H g
                \<Longrightarrow> pre H g [node] t \<Longrightarrow> \<exists>t'. dfs H g n node t = Inr t' \<and> post H g [node] t t'"
  shows "set xs \<subseteq> universe H g \<Longrightarrow> card (universe H g - fst s) < n \<Longrightarrow> pre H g xs s
         \<Longrightarrow> \<exists>s'. for_each (dfs H g n) xs s = Inr s' \<and> post H g xs s s'"
proof (induction xs arbitrary: s)
  case Nil
  then show ?case by (simp add: post_refl)
next
  case (Cons x xs)
  from Cons.prems have xu: "x \<in> universe H g" and xsu: "set xs \<subseteq> universe H g" by auto
  from calls [OF Cons.prems(2) xu pre_head [OF Cons.prems(3)]]
  obtain s1 where d: "dfs H g n x s = Inr s1" and p1: "post H g [x] s s1" by blast
  have sub: "fst s \<subseteq> fst s1" using p1 by (simp add: post_def)
  have c1: "card (universe H g - fst s1) < n"
    using card_universe_mono [OF sub, of H g] Cons.prems(2) by simp
  from Cons.IH [OF xsu c1 pre_step [OF Cons.prems(3) p1]]
  obtain s2 where f: "for_each (dfs H g n) xs s1 = Inr s2" and p2: "post H g xs s1 s2" by blast
  have "for_each (dfs H g n) (x # xs) s = Inr s2" using d f by simp
  with post_trans [OF p1 p2] show ?case by blast
qed


lemma ordered_snoc:
  assumes o: "ordered H g R" and n: "node \<notin> set R"
    and nb: "set (neighbours H g node) \<subseteq> set R"
  shows "ordered H g (R @ [node])"
  unfolding ordered_def
proof (intro ballI)
  fix x y
  assume x: "x \<in> set (R @ [node])" and y: "y \<in> set (neighbours H g x)"
  show "y \<in> set (R @ [node]) \<and> first_index (R @ [node]) y < first_index (R @ [node]) x"
  proof (cases "x \<in> set R")
    case True
    with o y have yr: "y \<in> set R" and lt: "first_index R y < first_index R x"
      unfolding ordered_def by auto
    show ?thesis
      using yr lt True by (simp add: first_index_append_in)
  next
    case False
    with x have xn: "x = node" by simp
    with y nb have yr: "y \<in> set R" by auto
    have "first_index (R @ [node]) node = length R"
      using first_index_append_notin [OF n, of "[node]"] by (simp add: first_index_Cons_same)
    moreover have "first_index (R @ [node]) y < length R"
      using yr by (simp add: first_index_append_in first_index_less)
    ultimately show ?thesis using yr xn by simp
  qed
qed

lemma dfs_contract:
  "card (universe H g - fst t) < n \<Longrightarrow> node \<in> universe H g \<Longrightarrow> pre H g [node] t
   \<Longrightarrow> \<exists>t'. dfs H g n node t = Inr t' \<and> post H g [node] t t'"
proof (induction n arbitrary: node t)
  case 0
  then show ?case by simp
next
  case (Suc n)
  let ?U = "universe H g"
  let ?E = "succs H g"
  let ?N = "neighbours H g node"
  obtain V R where t: "t = (V, R)" by (cases t)
  from Suc.prems(3) have RV: "set R \<subseteq> V" and dR: "distinct R"
    and reach: "\<forall>y \<in> V - set R. (y, node) \<in> ?E\<^sup>+"
    by (simp_all add: pre_def gray_def t)
  show ?case
  proof (cases "node \<in> V")
    case True
    have "dfs H g (Suc n) node t = Inr t" using True by (simp add: dfs_visited t)
    moreover have "post H g [node] t t"
      using Suc.prems(3) True by (intro post_refl) (simp_all add: t)
    ultimately show ?thesis by blast
  next
    case False
    let ?t1 = "(insert node V, R)"
    have nR: "node \<notin> set R" using False RV by blast
    have g1: "gray ?t1 = insert node (V - set R)"
      using nR by (auto simp: gray_def)
    have "?U - insert node V \<subset> ?U - V" using False Suc.prems(2) by blast
    then have "card (?U - insert node V) < card (?U - V)"
      by (intro psubset_card_mono) (simp_all add: finite_universe)
    with Suc.prems(1) have c1: "card (?U - fst ?t1) < n" by (simp add: t)
    have p1: "pre H g ?N ?t1"
      unfolding pre_def
    proof (intro conjI ballI)
      show "set (snd ?t1) \<subseteq> fst ?t1" using RV by auto
      show "distinct (snd ?t1)" using dR by simp
    next
      fix y x
      assume y: "y \<in> gray ?t1" and x: "x \<in> set ?N"
      have e: "(node, x) \<in> ?E" using x by (simp add: succs_def)
      show "(y, x) \<in> ?E\<^sup>+"
      proof (cases "y = node")
        case True
        with e show ?thesis by blast
      next
        case ny: False
        with y g1 have "y \<in> V - set R" by simp
        with reach have "(y, node) \<in> ?E\<^sup>+" by blast
        then show ?thesis using e by (rule trancl_into_trancl)
      qed
    qed
    from for_each_dfs [where n = n and H = H and g = g and xs = ?N and s = ?t1,
        OF Suc.IH neighbours_in_universe c1 p1]
    obtain t2 where f: "for_each (dfs H g n) ?N ?t1 = Inr t2" and p2: "post H g ?N ?t1 t2"
      by blast
    obtain V2 R2 where t2: "t2 = (V2, R2)" by (cases t2)
    from p2 have a: "set R2 \<subseteq> V2" and b: "distinct R2" and c: "insert node V \<subseteq> V2"
      and d: "set ?N \<subseteq> V2" and e: "V2 \<subseteq> insert node V \<union> ?U"
      and gg: "V2 - set R2 = insert node (V - set R)" and h: "prefix R R2"
      and o: "acyclic ?E \<and> ordered H g R \<longrightarrow> ordered H g R2"
      using g1 by (simp_all add: post_def t2 gray_def)
    have nR2: "node \<notin> set R2" using gg by blast
    let ?t' = "(V2, R2 @ [node])"
    have res: "dfs H g (Suc n) node t = Inr ?t'"
      using False f by (simp add: dfs_fresh t t2)
    have gray': "gray ?t' = gray t"
      using gg False by (auto simp: gray_def t)
    have ord: "ordered H g (R2 @ [node])" if ac: "acyclic ?E" and oR: "ordered H g R"
    proof -
      from o ac oR have o2: "ordered H g R2" by blast
      have nb: "set ?N \<subseteq> set R2"
      proof
        fix m
        assume m: "m \<in> set ?N"
        then have mv: "m \<in> V2" using d by blast
        have em: "(node, m) \<in> ?E" using m by (simp add: succs_def)
        show "m \<in> set R2"
        proof (rule ccontr)
          assume "m \<notin> set R2"
          with mv gg have "m = node \<or> m \<in> V - set R" by blast
          then have "(m, m) \<in> ?E\<^sup>+"
          proof
            assume "m = node"
            with em show ?thesis by blast
          next
            assume "m \<in> V - set R"
            with reach have "(m, node) \<in> ?E\<^sup>+" by blast
            then show ?thesis using em by (rule trancl_into_trancl)
          qed
          with ac show False by (simp add: acyclic_def)
        qed
      qed
      show ?thesis by (rule ordered_snoc [OF o2 nR2 nb])
    qed
    have "post H g [node] t ?t'"
      unfolding post_def
    proof (intro conjI)
      show "set (snd ?t') \<subseteq> fst ?t'" using a c by auto
      show "distinct (snd ?t')" using b nR2 by simp
      show "fst t \<subseteq> fst ?t'" using c by (auto simp: t)
      show "set [node] \<subseteq> fst ?t'" using c by auto
      show "fst ?t' \<subseteq> fst t \<union> ?U" using e Suc.prems(2) by (auto simp: t)
      show "gray ?t' = gray t" by (rule gray')
      show "prefix (snd t) (snd ?t')" using h by (simp add: t prefix_prefix)
      show "acyclic ?E \<and> ordered H g (snd t) \<longrightarrow> ordered H g (snd ?t')"
        using ord by (simp add: t)
    qed
    with res show ?thesis by blast
  qed
qed


lemma tsort_order_total:
  assumes frames: "card (universe H g) < k"
  shows "\<exists>R. tsort_order H k g = Inr (rev R) \<and> distinct R \<and> fst ` set g \<subseteq> set R
       \<and> set R \<subseteq> universe H g \<and> (acyclic (succs H g) \<longrightarrow> ordered H g R)"
proof -
  let ?U = "universe H g"
  let ?s = "({}, []) :: dfs_state"
  have keys: "set (map fst g) \<subseteq> ?U" by (auto simp: universe_def)
  have c: "card (?U - fst ?s) < k" using frames by simp
  have p: "pre H g (map fst g) ?s" by (simp add: pre_def gray_def)
  have calls: "\<exists>t'. dfs H g k node t = Inr t' \<and> post H g [node] t t'"
    if "card (?U - fst t) < k" "node \<in> ?U" "pre H g [node] t" for node t
    using that by (rule dfs_contract)
  from for_each_dfs [where n = k and H = H and g = g and xs = "map fst g"
      and s = ?s, OF calls keys c p]
  obtain s' where f: "for_each (dfs H g k) (map fst g) ?s = Inr s'"
    and q: "post H g (map fst g) ?s s'" by blast
  obtain V R where s': "s' = (V, R)" by (cases s')
  from q have a: "set R \<subseteq> V" and b: "distinct R" and k: "set (map fst g) \<subseteq> V"
    and u: "V \<subseteq> ?U" and gr: "V - set R = {}"
    and o: "acyclic (succs H g) \<longrightarrow> ordered H g R"
    by (simp_all add: post_def s' gray_def ordered_def)
  have VR: "V = set R" using a gr by blast
  have "tsort_order H k g = Inr (rev R)" using f by (simp add: tsort_order_def s')
  then show ?thesis using b k u o VR by auto
qed

lemma first_index_split:
  assumes "x \<in> set R"
  shows "\<exists>A B. R = A @ x # B \<and> x \<notin> set A \<and> first_index R x = length A"
proof -
  from split_list_first [OF assms] obtain A B where r: "R = A @ x # B" and n: "x \<notin> set A"
    by blast
  have "first_index R x = length A"
    unfolding r using first_index_append_notin [OF n, of "x # B"]
    by (simp add: first_index_Cons_same)
  with r n show ?thesis by blast
qed

lemma ordered_stands_before:
  assumes o: "ordered H g R" and u: "u \<in> set R" and e: "v \<in> set (neighbours H g u)"
  shows "stands_before (rev R) u v"
proof -
  from o u e have v: "v \<in> set R" and lt: "first_index R v < first_index R u"
    unfolding ordered_def by auto
  from first_index_split [OF v] obtain A B where r: "R = A @ v # B" and nA: "v \<notin> set A"
    and fv: "first_index R v = length A" by blast
  have uv: "u \<noteq> v" using lt by auto
  have "u \<notin> set A"
  proof
    assume "u \<in> set A"
    then have "first_index R u < length A"
      unfolding r by (simp add: first_index_append_in first_index_less)
    with lt fv show False by simp
  qed
  with u uv r have "u \<in> set B" by auto
  then obtain C D where "B = C @ u # D" by (meson split_list)
  with r have "rev R = rev D @ u # rev C @ v # rev A" by simp
  then show ?thesis unfolding stands_before_def by blast
qed


lemma add_node_keys: "fst ` set (add_node u g) = insert u (fst ` set g)"
  by (auto simp: add_node_def)

lemma add_node_map_of:
  "map_of (add_node u g) k
   = (if k = u \<and> u \<notin> fst ` set g then Some [] else map_of g k)"
proof (cases "u \<in> fst ` set g")
  case True
  then show ?thesis by (simp add: add_node_def)
next
  case False
  then have n: "map_of g u = None" by (simp add: map_of_eq_None_iff)
  show ?thesis
    using False n by (auto simp: add_node_def map_add_def split: option.splits)
qed

lemma in_graph_edges:
  "(a, b) \<in> graph_edges g \<longleftrightarrow> (case map_of g a of None \<Rightarrow> False | Some vs \<Rightarrow> b \<in> set vs)"
  by (cases "map_of g a") (simp_all add: graph_edges_def)

lemma add_node_edges: "graph_edges (add_node u g) = graph_edges g"
proof (cases "u \<in> fst ` set g")
  case True
  then show ?thesis by (simp add: add_node_def)
next
  case False
  then have n: "map_of g u = None" by (simp add: map_of_eq_None_iff)
  have "(a, b) \<in> graph_edges (add_node u g) \<longleftrightarrow> (a, b) \<in> graph_edges g" for a b
    unfolding in_graph_edges add_node_map_of using False n by simp
  then show ?thesis by auto
qed

lemma add_edge_keys: "fst ` set (add_edge u v g) = fst ` set g"
  by (force simp: add_edge_def split: if_splits)

lemma add_edge_map_of:
  "map_of (add_edge u v g) k
   = map_option (\<lambda>vs. if k = u then (if v \<in> set vs then vs else vs @ [v]) else vs) (map_of g k)"
  by (induction g) (auto simp: add_edge_def)

lemma add_edge_edges:
  assumes "u \<in> fst ` set g"
  shows "graph_edges (add_edge u v g) = insert (u, v) (graph_edges g)"
proof -
  from assms obtain vs where vs: "map_of g u = Some vs"
    by (metis map_of_eq_None_iff not_Some_eq)
  have "(a, b) \<in> graph_edges (add_edge u v g) \<longleftrightarrow> (a, b) \<in> insert (u, v) (graph_edges g)"
    for a b
  proof (cases "map_of g a")
    case None
    then have "a \<noteq> u" using vs by auto
    with None show ?thesis by (simp add: in_graph_edges add_edge_map_of)
  next
    case (Some ws)
    show ?thesis
    proof (cases "a = u")
      case True
      with Some vs show ?thesis by (auto simp: in_graph_edges add_edge_map_of)
    next
      case False
      with Some show ?thesis by (simp add: in_graph_edges add_edge_map_of)
    qed
  qed
  then show ?thesis by auto
qed

lemma build_graph_result:
  "\<forall>e \<in> set es. length e = 2 \<Longrightarrow>
   \<exists>g'. build_graph es g = Inr g'
      \<and> fst ` set g' = fst ` set g \<union> (\<Union>e \<in> set es. {e ! 0, e ! 1})
      \<and> graph_edges g' = graph_edges g \<union> (\<lambda>e. (e ! 0, e ! 1)) ` set es"
proof (induction es arbitrary: g)
  case Nil
  show ?case by simp
next
  case (Cons e es)
  let ?g1 = "add_edge (e ! 0) (e ! 1) (add_node (e ! 1) (add_node (e ! 0) g))"
  have k1: "fst ` set ?g1 = insert (e ! 0) (insert (e ! 1) (fst ` set g))"
    by (auto simp: add_edge_keys add_node_keys)
  have e1: "graph_edges ?g1 = insert (e ! 0, e ! 1) (graph_edges g)"
    by (subst add_edge_edges) (simp_all add: add_node_keys add_node_edges)
  from Cons.prems have l: "length e = 2" and rest: "\<forall>e \<in> set es. length e = 2" by simp_all
  from Cons.IH [OF rest, of ?g1] obtain g' where
    b: "build_graph es ?g1 = Inr g'"
    and k: "fst ` set g' = fst ` set ?g1 \<union> (\<Union>e \<in> set es. {e ! 0, e ! 1})"
    and ed: "graph_edges g' = graph_edges ?g1 \<union> (\<lambda>e. (e ! 0, e ! 1)) ` set es"
    by blast
  have "build_graph (e # es) g = Inr g'" using l b by simp
  moreover have "fst ` set g' = fst ` set g \<union> (\<Union>e \<in> set (e # es). {e ! 0, e ! 1})"
    unfolding k k1 by auto
  moreover have "graph_edges g' = graph_edges g \<union> (\<lambda>e. (e ! 0, e ! 1)) ` set (e # es)"
    unfolding ed e1 by auto
  ultimately show ?case by blast
qed

lemma succs_graph_edges:
  assumes "\<forall>vs. set (set_order H vs) = set vs"
  shows "succs H g = graph_edges g"
proof -
  have "(a, b) \<in> succs H g \<longleftrightarrow> (a, b) \<in> graph_edges g" for a b
    by (cases "map_of g a") (simp_all add: succs_def neighbours_def in_graph_edges assms)
  then show ?thesis by auto
qed

lemma example_tokens:
  "split (strip [CHR ''a'', CHR '' '', CHR ''b'', CHR 0x0A]) = [''a'', ''b'']"
  "split (strip [CHR ''b'', CHR '' '', CHR ''c'', CHR 0x0A]) = [''b'', ''c'']"
  "split (strip [CHR ''b'', CHR '' '', CHR ''a'', CHR 0x0A]) = [''b'', ''a'']"
  by (simp_all add: split_def strip_def is_space_def)

lemma example_set_order: "set_order (example_host ds lk fs) vs = vs"
  by (simp add: example_host_def)

lemma dag_graph:
  "build_graph (map (\<lambda>l. split (strip l)) dag_lines) []
   = Inr [(''a'', [''b'']), (''b'', [''c'']), (''c'', [])]"
  by (simp add: dag_lines_def example_tokens add_node_def add_edge_def)

lemma cycle_graph:
  "build_graph (map (\<lambda>l. split (strip l)) cycle_lines) []
   = Inr [(''a'', [''b'']), (''b'', [''a''])]"
  by (simp add: cycle_lines_def example_tokens add_node_def add_edge_def)

lemma cycle_order:
  "tsort_lines (example_host ds lk fs) 989 cycle_lines = Inr [''a'', ''b'']"
  by (simp add: tsort_lines_def cycle_graph tsort_order_def dfs_visited dfs_fresh
      neighbours_def example_set_order)

text \<open>With one frame for \<^verbatim>\<open>dfs\<close> the path from \<^verbatim>\<open>a\<close> to \<^verbatim>\<open>c\<close> is too deep: the handler
  raises and prints nothing.\<close>

lemma tsort_too_deep:
  "tsort (example_host [] [] [(''/f'', concat dag_lines)]) 2 [''f''] (initial_console ''/srv'')
   = (Some RecursionError, initial_console ''/srv'')"
proof -
  let ?H = "example_host [] [] [(''/f'', concat dag_lines)]"
  have r: "readlines (concat dag_lines) = dag_lines"
    by (simp add: readlines_def dag_lines_def)
  have f: "read_text ?H (os_path_join ?H (current_dir (initial_console ''/srv'')) ''f'')
           = Inr (concat dag_lines)"
    by (simp add: example_host_def initial_console_def posixpath_join_def)
  have t: "tsort_lines ?H (Suc 0) dag_lines = Inl RecursionError"
    by (simp add: tsort_lines_def dag_graph tsort_order_def dfs_fresh neighbours_def
        example_set_order)
  show ?thesis by (simp add: tsort_def f r t)
qed

lemma cycle_edges: "edges_of_lines cycle_lines = {(''a'', ''b''), (''b'', ''a'')}"
  by (simp add: edges_of_lines_def cycle_lines_def example_tokens)

lemma dag_edges: "edges_of_lines dag_lines = {(''a'', ''b''), (''b'', ''c'')}"
  by (simp add: edges_of_lines_def dag_lines_def example_tokens)

lemma dag_acyclic: "acyclic (edges_of_lines dag_lines)"
proof -
  have "(''b'', ''a'') \<notin> {(''b'', ''c'')}\<^sup>*"
    by (auto elim: rtranclE)
  moreover have "acyclic ({} :: (string \<times> string) set)" by (simp add: acyclic_def)
  ultimately show ?thesis by (simp add: dag_edges)
qed

subsection \<open>Claim C4\<close>

text \<open>
  C4, as the specification states it: on a graph with a cycle \<^verbatim>\<open>tsort\<close> detects the cycle
  and reports an error rather than printing an order. \<^verbatim>\<open>dfs\<close> returns at once on a node
  that is visited and nothing looks at the nodes whose calls have not ended: for the file
  with the lines \<^verbatim>\<open>a b\<close> and \<^verbatim>\<open>b a\<close> the handler, and the dispatcher on the line
  \<^verbatim>\<open>tsort f\<close>, raise nothing and print the order \<^verbatim>\<open>a b\<close>.
\<close>

theorem tsort_prints_a_cycle:
  "\<not> acyclic (edges_of_lines cycle_lines)
   \<and> readlines (concat cycle_lines) = cycle_lines
   \<and> tsort (example_host [] [] [(''/f'', concat cycle_lines)]) 990 [''f'']
        (initial_console ''/srv'')
       = (None, print (Text ''a b'') (initial_console ''/srv''))
   \<and> execute_command (example_host [] [] [(''/f'', concat cycle_lines)]) 990
        (initial_console ''/srv'') ''tsort f''
       = Some (None, print (Text ''a b'') (initial_console ''/srv''))"
proof -
  let ?H = "example_host [] [] [(''/f'', concat cycle_lines)]"
  let ?init = "initial_console ''/srv''"
  have "(''b'', ''a'') \<in> {(''b'', ''a'')}\<^sup>*" by blast
  then have 1: "\<not> acyclic (edges_of_lines cycle_lines)"
    by (simp add: cycle_edges)
  have r: "readlines (concat cycle_lines) = cycle_lines"
    by (simp add: readlines_def cycle_lines_def)
  have f: "read_text ?H (os_path_join ?H (current_dir ?init) ''f'') = Inr (concat cycle_lines)"
    by (simp add: example_host_def initial_console_def posixpath_join_def)
  have 3: "tsort ?H 990 [''f''] ?init = (None, print (Text ''a b'') ?init)"
    by (simp add: tsort_def f r cycle_order)
  have s: "split ''tsort f'' = [''tsort'', ''f'']"
    by (simp add: split_def is_space_def)
  have l: "lower ''tsort'' = ''tsort''"
    by (simp add: lower_def lower_char_def is_upper_def)
  have c: "commands ?H ''tsort'' = Some (\<lambda>k. returning (tsort ?H k) k)"
    by (simp add: commands_def command_names_def)
  have n: "aliases ?init ''tsort'' = None"
    by (simp add: initial_console_def)
  have h: "handler_frames ?H ''tsort'' = 6"
    by (simp add: example_host_def)
  have 4: "execute_command ?H 990 ?init ''tsort f'' = Some (None, print (Text ''a b'') ?init)"
    by (subst execute_command.simps) (simp add: s l c n h returning_def 3)
  from 1 r 3 4 show ?thesis by simp
qed

text \<open>
  C4 as amended: for every input file that can be read and whose lines each hold two
  tokens naming an edge, whatever the order in which the sets of neighbours hand out
  their elements, and when the interpreter leaves the handler more frames than the graph
  has nodes and one: \<^verbatim>\<open>tsort\<close> raises nothing and prints one line, which holds every
  node of the graph exactly once; when the graph is acyclic, for every edge from \<open>u\<close> to
  \<open>v\<close> the node \<open>u\<close> stands before \<open>v\<close> in that line. Nothing is promised on the order
  for a graph with a cycle, and no error is reported for it; with fewer frames the nested
  calls of \<^verbatim>\<open>dfs\<close> can raise \<^verbatim>\<open>RecursionError\<close>, which the handler does not catch.
\<close>

theorem tsort_orders_every_graph:
  assumes perm: "\<forall>vs. set (set_order H vs) = set vs"
    and readable: "read_text H (os_path_join H (current_dir st) f) = Inr content"
    and two: "\<forall>l \<in> set (readlines content). length (split (strip l)) = 2"
    and frames: "card (Field (edges_of_lines (readlines content))) + 1 < k"
  shows "\<exists>order. tsort H k (f # rest) st = (None, print (Text (join_sp order)) st)
           \<and> distinct order
           \<and> set order = Field (edges_of_lines (readlines content))
           \<and> (acyclic (edges_of_lines (readlines content))
                \<longrightarrow> (\<forall>(u, v) \<in> edges_of_lines (readlines content).
                       stands_before order u v))"
proof -
  let ?ls = "readlines content"
  let ?es = "map (\<lambda>l. split (strip l)) ?ls"
  let ?E = "edges_of_lines ?ls"
  have "\<forall>e \<in> set ?es. length e = 2" using two by simp
  from build_graph_result [OF this, of "[]"] obtain g where
    b: "build_graph ?es [] = Inr g"
    and k: "fst ` set g = (\<Union>e \<in> set ?es. {e ! 0, e ! 1})"
    and ed: "graph_edges g = (\<lambda>e. (e ! 0, e ! 1)) ` set ?es"
    by (auto simp: graph_edges_def)
  have E: "graph_edges g = ?E" unfolding ed edges_of_lines_def by (simp add: image_image)
  have S: "succs H g = ?E" using succs_graph_edges [OF perm] E by simp
  have K: "fst ` set g = Field ?E"
    unfolding k edges_of_lines_def Field_def by (auto simp: Domain_fst Range_snd image_image)
  have U: "universe H g = Field ?E"
  proof -
    have "set (neighbours H g u) \<subseteq> Field ?E" for u
    proof
      fix v assume "v \<in> set (neighbours H g u)"
      then have "(u, v) \<in> succs H g" by (simp add: succs_def)
      then have "(u, v) \<in> ?E" using S by simp
      then show "v \<in> Field ?E" by (auto simp: Field_def)
    qed
    then show ?thesis unfolding universe_def K by blast
  qed
  have fr: "card (universe H g) < k - 1" using frames U by simp
  from tsort_order_total [OF fr] obtain R where
    t: "tsort_order H (k - 1) g = Inr (rev R)" and d: "distinct R"
    and ks: "fst ` set g \<subseteq> set R"
    and us: "set R \<subseteq> universe H g" and o: "acyclic (succs H g) \<longrightarrow> ordered H g R"
    by blast
  have sR: "set R = Field ?E" using ks us K U by auto
  have "tsort_lines H (k - 1) ?ls = Inr (rev R)"
    using b t by (simp add: tsort_lines_def)
  then have res: "tsort H k (f # rest) st = (None, print (Text (join_sp (rev R))) st)"
    using readable by (simp add: tsort_def)
  have ord: "stands_before (rev R) u v" if ac: "acyclic ?E" and e: "(u, v) \<in> ?E" for u v
  proof -
    from ac o S have oR: "ordered H g R" by simp
    from e have u: "u \<in> set R" unfolding sR by (auto simp: Field_def)
    from e S have "(u, v) \<in> succs H g" by simp
    then have v: "v \<in> set (neighbours H g u)" by (simp add: succs_def)
    show ?thesis by (rule ordered_stands_before [OF oR u v])
  qed
  show ?thesis
    using res d sR ord by (intro exI [of _ "rev R"]) auto
qed

theorem tsort_orders_every_graph_witness:
  "set (set_order (example_host [] [] [(''/f'', concat dag_lines)]) [''x'', ''y''])
     = set [''x'', ''y'']
   \<and> readlines (concat dag_lines) = dag_lines
   \<and> length (split (strip [CHR ''a'', CHR '' '', CHR ''b'', CHR 0x0A])) = 2
   \<and> length (split (strip [CHR ''b'', CHR '' '', CHR ''c'', CHR 0x0A])) = 2
   \<and> acyclic (edges_of_lines dag_lines)
   \<and> (\<exists>order. tsort (example_host [] [] [(''/f'', concat dag_lines)]) 990 [''f'']
                  (initial_console ''/srv'')
                = (None, print (Text (join_sp order)) (initial_console ''/srv''))
              \<and> distinct order \<and> set order = {''a'', ''b'', ''c''}
              \<and> stands_before order ''a'' ''b'' \<and> stands_before order ''b'' ''c'')"
proof -
  let ?H = "example_host [] [] [(''/f'', concat dag_lines)]"
  let ?init = "initial_console ''/srv''"
  have perm: "\<forall>vs. set (set_order ?H vs) = set vs"
    by (simp add: example_set_order)
  have r: "readlines (concat dag_lines) = dag_lines"
    by (simp add: readlines_def dag_lines_def)
  have readable: "read_text ?H (os_path_join ?H (current_dir ?init) ''f'') = Inr (concat dag_lines)"
    by (simp add: example_host_def initial_console_def posixpath_join_def)
  have two: "\<forall>l \<in> set (readlines (concat dag_lines)). length (split (strip l)) = 2"
    unfolding r by (simp add: dag_lines_def example_tokens)
  have fld: "Field (edges_of_lines dag_lines) = {''a'', ''b'', ''c''}"
    by (auto simp: dag_edges Field_def)
  have frames: "card (Field (edges_of_lines (readlines (concat dag_lines)))) + 1 < 990"
    by (simp add: r fld)
  from tsort_orders_every_graph [OF perm readable two frames, of "[]"] dag_acyclic
  obtain order where
    "tsort ?H 990 [''f''] ?init = (None, print (Text (join_sp order)) ?init)"
    "distinct order" "set order = {''a'', ''b'', ''c''}"
    "\<forall>(u, v) \<in> edges_of_lines dag_lines. stands_before order u v"
    by (auto simp: r fld)
  then have "tsort ?H 990 [''f''] ?init = (None, print (Text (join_sp order)) ?init)
             \<and> distinct order \<and> set order = {''a'', ''b'', ''c''}
             \<and> stands_before order ''a'' ''b'' \<and> stands_before order ''b'' ''c''"
    by (simp add: dag_edges)
  then have ex: "\<exists>order. tsort ?H 990 [''f''] ?init
                            = (None, print (Text (join_sp order)) ?init)
                          \<and> distinct order \<and> set order = {''a'', ''b'', ''c''}
                          \<and> stands_before order ''a'' ''b'' \<and> stands_before order ''b'' ''c''"
    by blast
  have p: "set (set_order ?H [''x'', ''y'']) = set [''x'', ''y'']"
    using perm by blast
  from p r dag_acyclic ex show ?thesis by (simp add: example_tokens)
qed

end
